theory Spec2Isabelle
  imports Main
begin

section \<open>Data model (server/src/db/schema.ts)\<close>

text \<open>
  The tables \<open>books\<close> and \<open>transactions\<close> of the schema, as lists of rows. Identifiers
  are PostgreSQL integers; the \<open>createdAt\<close>/\<open>updatedAt\<close> columns hold wall-clock time and
  are left out. Of the \<open>users\<close> table only the ids are kept: the handlers below touch it
  through the foreign keys of \<open>books.ownerId\<close>, \<open>transactions.requesterId\<close> and
  \<open>transactions.ownerId\<close> alone.
  A book's \<open>status\<close> column is a varchar, a transaction's \<open>status\<close> is the enum
  \<open>transaction_status\<close>.
\<close>

datatype transaction_type = Free | Exchange

datatype transaction_status = Available | Pending | Approved | Rejected | Shared

record book =
  b_id :: int
  b_title :: string
  b_author :: string
  b_genre :: string
  b_ageGroup :: string
  b_coverImage :: string
  b_availabilityType :: transaction_type
  b_status :: string
  b_ownerId :: int

record transaction =
  t_id :: int
  t_requesterId :: int
  t_requestedBookId :: int
  t_ownerId :: int
  t_type :: transaction_type
  t_offeredBookId :: "int option"
  t_status :: transaction_status

text \<open>
  The database: the ids of the users, both tables and their identity sequences
  (\<open>generatedAlwaysAsIdentity\<close>), each holding the next value it hands out.
\<close>

record state =
  users :: "int list"
  books :: "book list"
  transactions :: "transaction list"
  bookSeq :: int
  transactionSeq :: int

section \<open>Responses\<close>

text \<open>
  Every \<open>return res.status(...).json({success: false, message: ...})\<close> of the controllers is
  one constructor; \<open>http_status\<close> gives the status code the handler sends with it.
\<close>

datatype error =
    AuthenticationRequired     \<comment> \<open>401 "Authentication required"\<close>
  | ValidationFailed           \<comment> \<open>400 "Validation failed"\<close>
  | BookNotFound               \<comment> \<open>404 "Book not found"\<close>
  | BookNotAvailable           \<comment> \<open>400 "Book is not available for request"\<close>
  | InvalidOwnerId             \<comment> \<open>400 "Invalid owner ID for this book"\<close>
  | OfferedBookRequired        \<comment> \<open>400 "Offered book is required for exchange type"\<close>
  | OfferedBookNotFound        \<comment> \<open>404 "Offered book not found"\<close>
  | OfferNotOwnBook            \<comment> \<open>403 "You can only offer your own books"\<close>
  | OfferedBookNotAvailable    \<comment> \<open>400 "Offered book is not available"\<close>
  | SameBook                   \<comment> \<open>400 "Cannot offer the same book you're requesting"\<close>
  | OwnBook                    \<comment> \<open>400 "You cannot request your own book"\<close>
  | TypeMismatch               \<comment> \<open>400 "Transaction type must match book availability type"\<close>
  | DuplicatePending           \<comment> \<open>400 "You already have a pending request for this book"\<close>
  | InvalidTransactionId       \<comment> \<open>400 "Transaction ID must be a valid number"\<close>
  | TransactionNotFound        \<comment> \<open>404 "Transaction not found"\<close>
  | NotBookOwner               \<comment> \<open>403 "Only the book owner can update transaction status"\<close>
  | NotPending                 \<comment> \<open>400 "Only pending transactions can be updated"\<close>
  | InvalidStatusChange        \<comment> \<open>400 "Status can only be changed to approved or rejected"\<close>
  | InvalidBookId              \<comment> \<open>400 "Book ID must be a valid number"\<close>
  | UpdateNotOwnBook           \<comment> \<open>403 "You can only update your own books"\<close>
  | DeleteNotOwnBook           \<comment> \<open>403 "You can only delete your own books"\<close>
  | InternalServerError        \<comment> \<open>500 "Internal server error", the \<open>catch\<close> block\<close>
  | TransactionInsertRefused   \<comment> \<open>500 as above, after the insert into \<open>transactions\<close> failed\<close>
  | BookInsertRefused          \<comment> \<open>500 as above, after the insert into \<open>books\<close> failed\<close>

fun http_status :: "error \<Rightarrow> nat" where
  "http_status AuthenticationRequired = 401"
| "http_status ValidationFailed = 400"
| "http_status BookNotFound = 404"
| "http_status BookNotAvailable = 400"
| "http_status InvalidOwnerId = 400"
| "http_status OfferedBookRequired = 400"
| "http_status OfferedBookNotFound = 404"
| "http_status OfferNotOwnBook = 403"
| "http_status OfferedBookNotAvailable = 400"
| "http_status SameBook = 400"
| "http_status OwnBook = 400"
| "http_status TypeMismatch = 400"
| "http_status DuplicatePending = 400"
| "http_status InvalidTransactionId = 400"
| "http_status TransactionNotFound = 404"
| "http_status NotBookOwner = 403"
| "http_status NotPending = 400"
| "http_status InvalidStatusChange = 400"
| "http_status InvalidBookId = 400"
| "http_status UpdateNotOwnBook = 403"
| "http_status DeleteNotOwnBook = 403"
| "http_status InternalServerError = 500"
| "http_status TransactionInsertRefused = 500"
| "http_status BookInsertRefused = 500"

section \<open>Queries\<close>

text \<open>
  The id columns are PostgreSQL \<open>integer\<close>s. A query that compares such a column with a
  parameter outside their range does not return: PostgreSQL refuses the parameter, the
  driver throws and the \<open>catch\<close> block of the handler answers 500. The rows hold
  values of the range only, so a parameter outside it matches no row; \<open>missing\<close> is the
  answer of a handler that found no row for the id \<open>i\<close>: its own not-found error \<open>e\<close> when
  \<open>i\<close> is in the range, the 500 otherwise.
\<close>

definition int4 :: "int \<Rightarrow> bool" where
  "int4 i = (- 2147483648 \<le> i \<and> i \<le> 2147483647)"

definition missing :: "int \<Rightarrow> error \<Rightarrow> error" where
  "missing i e = (if int4 i then e else InternalServerError)"

text \<open>
  zod's \<open>.int()\<close> accepts the safe integers only; with \<open>.positive()\<close> (or \<open>.min(1)\<close>) an
  id passes when it satisfies \<open>safe_positive\<close>.
\<close>

definition safe_positive :: "int \<Rightarrow> bool" where
  "safe_positive i = (0 < i \<and> i \<le> 9007199254740991)"

text \<open>
  \<open>db.select().from(books).where(eq(books.id, i)).limit(1)\<close>: the first row with that id.
\<close>

definition select_book :: "book list \<Rightarrow> int \<Rightarrow> book option" where
  "select_book bs i = find (\<lambda>b. b_id b = i) bs"

definition select_transaction :: "transaction list \<Rightarrow> int \<Rightarrow> transaction option" where
  "select_transaction ts i = find (\<lambda>t. t_id t = i) ts"

text \<open>
  \<open>db.update(books).set({status: v}).where(eq(books.id, i))\<close> and the same on
  \<open>transactions\<close>: every row with that id gets the new status.
\<close>

definition set_book_status :: "book list \<Rightarrow> int \<Rightarrow> string \<Rightarrow> book list" where
  "set_book_status bs i v = map (\<lambda>b. if b_id b = i then b\<lparr>b_status := v\<rparr> else b) bs"

definition set_transaction_status ::
  "transaction list \<Rightarrow> int \<Rightarrow> transaction_status \<Rightarrow> transaction list" where
  "set_transaction_status ts i v = map (\<lambda>t. if t_id t = i then t\<lparr>t_status := v\<rparr> else t) ts"

text \<open>The status column of the book with a given id, when there is such a book.\<close>

definition book_status :: "state \<Rightarrow> int \<Rightarrow> string option" where
  "book_status s i = map_option b_status (select_book (books s) i)"

section \<open>createTransaction (server/src/controllers/transactionControllers.ts)\<close>

text \<open>
  The request body after JSON decoding, with the field types the schema asks for; a
  missing or \<open>null\<close> \<open>offeredBookId\<close> is \<open>None\<close>.
\<close>

record create_body =
  requestedBookId :: int
  ownerId :: int
  type :: transaction_type
  offeredBookId :: "int option"

text \<open>JavaScript truthiness of a \<open>number | null | undefined\<close>.\<close>

fun truthy :: "int option \<Rightarrow> bool" where
  "truthy None = False"
| "truthy (Some n) = (n \<noteq> 0)"

text \<open>
  \<open>createTransactionSchema.safeParse(req.body).success\<close>
  (server/src/common/transactionValidator.ts): the three ids are positive safe integers,
  and the refinement ties \<open>offeredBookId\<close> to \<open>type\<close>.
\<close>

definition createTransactionSchema :: "create_body \<Rightarrow> bool" where
  "createTransactionSchema body =
     (safe_positive (requestedBookId body) \<and> safe_positive (ownerId body) \<and>
      (case offeredBookId body of None \<Rightarrow> True | Some j \<Rightarrow> safe_positive j) \<and>
      \<not> (type body = Exchange \<and> \<not> truthy (offeredBookId body)) \<and>
      \<not> (type body = Free \<and> truthy (offeredBookId body)))"

text \<open>
  The block \<open>if (type === "Exchange") { ... }\<close>: the first failing check on the offered
  book, or \<open>None\<close> when the block falls through.
\<close>

definition exchange_checks :: "state \<Rightarrow> int \<Rightarrow> create_body \<Rightarrow> error option" where
  "exchange_checks s userId body =
     (if type body = Exchange then
        (if \<not> truthy (offeredBookId body) then Some OfferedBookRequired
         else (case select_book (books s) (the (offeredBookId body)) of
           None \<Rightarrow> Some (missing (the (offeredBookId body)) OfferedBookNotFound)
         | Some offeredBook \<Rightarrow>
             (if b_ownerId offeredBook \<noteq> userId then Some OfferNotOwnBook
              else if b_status offeredBook \<noteq> ''available'' then Some OfferedBookNotAvailable
              else if offeredBookId body = Some (requestedBookId body) then Some SameBook
              else None)))
      else None)"

text \<open>
  The pending transaction of this user for this book, if any
  (\<open>existingTransaction.length > 0\<close>).
\<close>

definition existingTransaction :: "state \<Rightarrow> int \<Rightarrow> int \<Rightarrow> bool" where
  "existingTransaction s userId bookId =
     (filter (\<lambda>t. t_requesterId t = userId \<and> t_requestedBookId t = bookId \<and> t_status t = Pending)
        (transactions s) \<noteq> [])"

text \<open>The three writes of a successful request: the insert and the status updates.\<close>

definition insert_transaction :: "state \<Rightarrow> int \<Rightarrow> create_body \<Rightarrow> transaction \<times> state" where
  "insert_transaction s userId body =
     (let newTransaction =
            \<lparr>t_id = transactionSeq s, t_requesterId = userId,
             t_requestedBookId = requestedBookId body, t_ownerId = ownerId body,
             t_type = type body,
             t_offeredBookId = (if truthy (offeredBookId body) then offeredBookId body else None),
             t_status = Pending\<rparr>;
          s1 = s\<lparr>transactions := transactions s @ [newTransaction],
                 transactionSeq := transactionSeq s + 1\<rparr>;
          s2 = s1\<lparr>books := set_book_status (books s1) (requestedBookId body) ''pending''\<rparr>;
          s3 = (if type body = Exchange \<and> truthy (offeredBookId body)
                then s2\<lparr>books := set_book_status (books s2) (the (offeredBookId body)) ''pending''\<rparr>
                else s2)
      in (newTransaction, s3))"

text \<open>
  The handler. \<open>user\<close> is \<open>req.user?.userId\<close> (\<open>None\<close> when undefined); a result
  \<open>Inl e\<close> is an error response, \<open>Inr (row, s')\<close> is the 201 response with the inserted
  row and the database after the writes. The three selects answer 500 for an id outside
  the integer range (for the last one this is the id of the caller). The insert is
  refused by the database, and the \<open>catch\<close> block answers 500, when \<open>requesterId\<close> or
  \<open>ownerId\<close> is not the id of a user; the requested and the offered book exist by then.
  A refused insert has taken a value from the identity sequence all the same: that is
  the error \<open>TransactionInsertRefused\<close>, see \<open>after\<close> below.
\<close>

definition createTransaction ::
  "state \<Rightarrow> int option \<Rightarrow> create_body \<Rightarrow> error + transaction \<times> state" where
  "createTransaction s user body =
     (if \<not> truthy user then Inl AuthenticationRequired
      else if \<not> createTransactionSchema body then Inl ValidationFailed
      else (case select_book (books s) (requestedBookId body) of
        None \<Rightarrow> Inl (missing (requestedBookId body) BookNotFound)
      | Some book \<Rightarrow>
          (if b_status book \<noteq> ''available'' then Inl BookNotAvailable
           else if b_ownerId book \<noteq> ownerId body then Inl InvalidOwnerId
           else (case exchange_checks s (the user) body of
             Some e \<Rightarrow> Inl e
           | None \<Rightarrow>
               (if b_ownerId book = the user then Inl OwnBook
                else if b_availabilityType book \<noteq> type body then Inl TypeMismatch
                else if existingTransaction s (the user) (requestedBookId body)
                  then Inl DuplicatePending
                else if \<not> int4 (the user) then Inl InternalServerError
                else if the user \<notin> set (users s) \<or> ownerId body \<notin> set (users s)
                  then Inl TransactionInsertRefused
                else Inr (insert_transaction s (the user) body))))))"

section \<open>updateTransaction\<close>

text \<open>
  The body of the PATCH: \<open>ub_status\<close> is \<open>None\<close> when the field is missing or not one of
  the five enum strings; \<open>ub_id\<close> is an \<open>id\<close> key of the body, which
  \<open>{id: transactionId, ...req.body}\<close> lets override the path parameter for validation only.
\<close>

record update_body =
  ub_id :: "int option"
  ub_status :: "transaction_status option"

definition updateTransactionSchema :: "int \<Rightarrow> update_body \<Rightarrow> transaction_status option" where
  "updateTransactionSchema transactionId body =
     (if safe_positive (case ub_id body of None \<Rightarrow> transactionId | Some i \<Rightarrow> i)
      then ub_status body else None)"

text \<open>
  \<open>select().from(transactions).innerJoin(books, eq(transactions.requestedBookId, books.id))
  .where(eq(transactions.id, transactionId)).limit(1)\<close>; transaction ids are a primary key,
  so the join has at most the one row of that transaction with its requested book.
\<close>

definition transactionWithBook :: "state \<Rightarrow> int \<Rightarrow> (transaction \<times> book) option" where
  "transactionWithBook s transactionId =
     (case select_transaction (transactions s) transactionId of
        None \<Rightarrow> None
      | Some transaction \<Rightarrow>
          (case select_book (books s) (t_requestedBookId transaction) of
             None \<Rightarrow> None
           | Some book \<Rightarrow> Some (transaction, book)))"

text \<open>
  The loop \<open>for (const otherTransaction of otherPendingTransactions)\<close> over the rows
  selected before the loop starts.
\<close>

fun reject_others :: "int \<Rightarrow> transaction list \<Rightarrow> state \<Rightarrow> state" where
  "reject_others transactionId [] s = s"
| "reject_others transactionId (otherTransaction # rest) s =
     reject_others transactionId rest
       (if t_id otherTransaction \<noteq> transactionId \<and> t_status otherTransaction = Pending then
          (let s1 = s\<lparr>transactions :=
                        set_transaction_status (transactions s) (t_id otherTransaction) Rejected\<rparr>
           in if truthy (t_offeredBookId otherTransaction)
              then s1\<lparr>books := set_book_status (books s1)
                                  (the (t_offeredBookId otherTransaction)) ''available''\<rparr>
              else s1)
        else s)"

text \<open>The writes of a resolution, from the update of the target row on.\<close>

definition resolve_writes ::
  "state \<Rightarrow> int \<Rightarrow> transaction \<Rightarrow> transaction_status \<Rightarrow> transaction \<times> state" where
  "resolve_writes s transactionId transaction status =
     (let s1 = s\<lparr>transactions := set_transaction_status (transactions s) transactionId status\<rparr>;
          updatedTransaction = transaction\<lparr>t_status := status\<rparr>;
          s2 = (if status = Approved then
                  reject_others transactionId
                    (filter (\<lambda>t. t_requestedBookId t = t_requestedBookId transaction)
                       (transactions s1)) s1
                else if truthy (t_offeredBookId transaction)
                  then s1\<lparr>books := set_book_status (books s1)
                                      (the (t_offeredBookId transaction)) ''available''\<rparr>
                else s1);
          bookStatus = (if status = Approved then ''approved'' else ''available'');
          s3 = s2\<lparr>books := set_book_status (books s2) (t_requestedBookId transaction) bookStatus\<rparr>
      in (updatedTransaction, s3))"

text \<open>
  The handler. \<open>param\<close> is \<open>parseInt(req.params.id)\<close>, \<open>None\<close> for \<open>NaN\<close>. The select
  runs with the path id, whatever \<open>id\<close> the body carried, and answers 500 when that id is
  outside the integer range.
\<close>

definition updateTransaction ::
  "state \<Rightarrow> int option \<Rightarrow> int option \<Rightarrow> update_body \<Rightarrow> error + transaction \<times> state" where
  "updateTransaction s user param body =
     (if \<not> truthy user then Inl AuthenticationRequired
      else if \<not> truthy param then Inl InvalidTransactionId
      else (case updateTransactionSchema (the param) body of
        None \<Rightarrow> Inl ValidationFailed
      | Some status \<Rightarrow>
          (case transactionWithBook s (the param) of
             None \<Rightarrow> Inl (missing (the param) TransactionNotFound)
           | Some (transaction, book) \<Rightarrow>
               (if b_ownerId book \<noteq> the user then Inl NotBookOwner
                else if t_status transaction \<noteq> Pending then Inl NotPending
                else if status \<noteq> Approved \<and> status \<noteq> Rejected then Inl InvalidStatusChange
                else Inr (resolve_writes s (the param) transaction status)))))"

section \<open>Book handlers (server/src/controllers/bookControllers.ts)\<close>

text \<open>
  A request body is a JSON object, read here as a map from keys to values; \<open>JOther\<close>
  stands for every value that is neither a string nor an integer. The length of a string
  is the length of the character list.
\<close>

datatype jvalue = JString string | JInt int | JOther

type_synonym jobject = "string \<Rightarrow> jvalue option"

text \<open>
  \<open>bookSchema\<close> (server/src/common/bookValidator.ts) has exactly these seven keys, and
  zod drops every other key of the input. A parsed field is \<open>None\<close> when the value has an
  issue, \<open>Some None\<close> when the key is absent and \<open>Some (Some v)\<close> otherwise.
\<close>

record book_input =
  i_title :: "string option"
  i_author :: "string option"
  i_genre :: "string option"
  i_ageGroup :: "string option"
  i_coverImage :: "string option"
  i_availabilityType :: "transaction_type option"
  i_ownerId :: "int option"

fun string_field :: "nat \<Rightarrow> nat \<Rightarrow> jvalue option \<Rightarrow> string option option" where
  "string_field lo hi None = Some None"
| "string_field lo hi (Some (JString x)) =
     (if lo \<le> length x \<and> length x \<le> hi then Some (Some x) else None)"
| "string_field lo hi (Some v) = None"

text \<open>\<open>z.string().url()\<close>; the URL test belongs to zod and is a parameter.\<close>

fun url_field :: "(string \<Rightarrow> bool) \<Rightarrow> jvalue option \<Rightarrow> string option option" where
  "url_field is_url None = Some None"
| "url_field is_url (Some (JString x)) = (if is_url x then Some (Some x) else None)"
| "url_field is_url (Some v) = None"

fun enum_field :: "jvalue option \<Rightarrow> transaction_type option option" where
  "enum_field None = Some None"
| "enum_field (Some (JString x)) =
     (if x = ''Free'' then Some (Some Free)
      else if x = ''Exchange'' then Some (Some Exchange) else None)"
| "enum_field (Some v) = None"

text \<open>\<open>z.int().min(1)\<close>: a safe integer that is at least 1.\<close>

fun int_field :: "jvalue option \<Rightarrow> int option option" where
  "int_field None = Some None"
| "int_field (Some (JInt n)) = (if safe_positive n then Some (Some n) else None)"
| "int_field (Some v) = None"

text \<open>\<open>bookSchema.partial().safeParse(body)\<close>: the data, or \<open>None\<close> when there are issues.\<close>

definition bookSchema_partial :: "(string \<Rightarrow> bool) \<Rightarrow> jobject \<Rightarrow> book_input option" where
  "bookSchema_partial is_url body =
     (let title = string_field 2 100 (body ''title'');
          author = string_field 2 100 (body ''author'');
          genre = string_field 2 50 (body ''genre'');
          ageGroup = string_field 2 10 (body ''ageGroup'');
          coverImage = url_field is_url (body ''coverImage'');
          availabilityType = enum_field (body ''availabilityType'');
          ownerId = int_field (body ''ownerId'')
      in if title = None \<or> author = None \<or> genre = None \<or> ageGroup = None \<or>
            coverImage = None \<or> availabilityType = None \<or> ownerId = None
         then None
         else Some \<lparr>i_title = the title, i_author = the author, i_genre = the genre,
                    i_ageGroup = the ageGroup, i_coverImage = the coverImage,
                    i_availabilityType = the availabilityType, i_ownerId = the ownerId\<rparr>)"

text \<open>\<open>bookSchema.safeParse(body)\<close>: as above, and every key is required.\<close>

definition bookSchema :: "(string \<Rightarrow> bool) \<Rightarrow> jobject \<Rightarrow> book_input option" where
  "bookSchema is_url body =
     (case bookSchema_partial is_url body of
        None \<Rightarrow> None
      | Some d \<Rightarrow>
          (if i_title d = None \<or> i_author d = None \<or> i_genre d = None \<or> i_ageGroup d = None \<or>
              i_coverImage d = None \<or> i_availabilityType d = None \<or> i_ownerId d = None
           then None else Some d))"

text \<open>
  What the database refuses of the validated data: an \<open>ownerId\<close> that is no user's id
  (foreign key) and a cover image longer than the column (\<open>varchar(255)\<close>; the other
  strings are bounded by the schema).
\<close>

definition refused :: "state \<Rightarrow> book_input \<Rightarrow> bool" where
  "refused s d =
     ((case i_ownerId d of None \<Rightarrow> False | Some u \<Rightarrow> u \<notin> set (users s)) \<or>
      (case i_coverImage d of None \<Rightarrow> False | Some c \<Rightarrow> 255 < length c))"

text \<open>\<open>.set({...validationResult.data, updatedAt: new Date()})\<close> on one row.\<close>

definition set_columns :: "book_input \<Rightarrow> book \<Rightarrow> book" where
  "set_columns d b =
     b\<lparr>b_title := (case i_title d of None \<Rightarrow> b_title b | Some x \<Rightarrow> x),
       b_author := (case i_author d of None \<Rightarrow> b_author b | Some x \<Rightarrow> x),
       b_genre := (case i_genre d of None \<Rightarrow> b_genre b | Some x \<Rightarrow> x),
       b_ageGroup := (case i_ageGroup d of None \<Rightarrow> b_ageGroup b | Some x \<Rightarrow> x),
       b_coverImage := (case i_coverImage d of None \<Rightarrow> b_coverImage b | Some x \<Rightarrow> x),
       b_availabilityType :=
         (case i_availabilityType d of None \<Rightarrow> b_availabilityType b | Some x \<Rightarrow> x),
       b_ownerId := (case i_ownerId d of None \<Rightarrow> b_ownerId b | Some x \<Rightarrow> x)\<rparr>"

text \<open>
  \<open>updateBook\<close>. The select answers 500 for a path id outside the integer range; a
  refused update writes nothing.
\<close>

definition updateBook ::
  "(string \<Rightarrow> bool) \<Rightarrow> state \<Rightarrow> int option \<Rightarrow> int option \<Rightarrow> jobject \<Rightarrow> error + book \<times> state" where
  "updateBook is_url s user param body =
     (if \<not> truthy user then Inl AuthenticationRequired
      else if \<not> truthy param then Inl InvalidBookId
      else (case select_book (books s) (the param) of
        None \<Rightarrow> Inl (missing (the param) BookNotFound)
      | Some existingBook \<Rightarrow>
          (if b_ownerId existingBook \<noteq> the user then Inl UpdateNotOwnBook
           else (case bookSchema_partial is_url body of
             None \<Rightarrow> Inl ValidationFailed
           | Some d \<Rightarrow>
               (if refused s d then Inl InternalServerError
                else Inr (set_columns d existingBook,
                          s\<lparr>books := map (\<lambda>b. if b_id b = the param then set_columns d b else b)
                                        (books s)\<rparr>))))))"

text \<open>
  \<open>createBook\<close> validates \<open>{...req.body, ownerId: userId}\<close> and inserts the data; the
  \<open>status\<close> column takes its default. An \<open>ownerId\<close> outside the integer range is refused
  as a parameter, before the statement runs; an insert refused for its foreign key or the
  length of the cover image has taken a value from the identity sequence
  (\<open>BookInsertRefused\<close>, see \<open>after\<close> below).
\<close>

definition createBook ::
  "(string \<Rightarrow> bool) \<Rightarrow> state \<Rightarrow> int option \<Rightarrow> jobject \<Rightarrow> error + book \<times> state" where
  "createBook is_url s user body =
     (if \<not> truthy user then Inl AuthenticationRequired
      else (case bookSchema is_url (body(''ownerId'' \<mapsto> JInt (the user))) of
        None \<Rightarrow> Inl ValidationFailed
      | Some bookData \<Rightarrow>
          (if \<not> int4 (the (i_ownerId bookData)) then Inl InternalServerError
           else if refused s bookData then Inl BookInsertRefused
           else (let newBook =
                       \<lparr>b_id = bookSeq s, b_title = the (i_title bookData),
                        b_author = the (i_author bookData), b_genre = the (i_genre bookData),
                        b_ageGroup = the (i_ageGroup bookData),
                        b_coverImage = the (i_coverImage bookData),
                        b_availabilityType = the (i_availabilityType bookData),
                        b_status = ''available'', b_ownerId = the (i_ownerId bookData)\<rparr>
                 in Inr (newBook, s\<lparr>books := books s @ [newBook], bookSeq := bookSeq s + 1\<rparr>)))))"

text \<open>
  \<open>deleteBook\<close>; the select answers 500 for a path id outside the integer range, and
  the delete is refused (500) while a transaction references the book, since neither
  foreign key of \<open>transactions\<close> cascades.
\<close>

definition deleteBook :: "state \<Rightarrow> int option \<Rightarrow> int option \<Rightarrow> error + unit \<times> state" where
  "deleteBook s user param =
     (if \<not> truthy user then Inl AuthenticationRequired
      else if \<not> truthy param then Inl InvalidBookId
      else (case select_book (books s) (the param) of
        None \<Rightarrow> Inl (missing (the param) BookNotFound)
      | Some existingBook \<Rightarrow>
          (if b_ownerId existingBook \<noteq> the user then Inl DeleteNotOwnBook
           else if filter (\<lambda>t. t_requestedBookId t = the param \<or> t_offeredBookId t = Some (the param))
                     (transactions s) \<noteq> []
             then Inl InternalServerError
           else Inr ((), s\<lparr>books := filter (\<lambda>b. b_id b \<noteq> the param) (books s)\<rparr>))))"

section \<open>States\<close>

text \<open>
  What an error response leaves of the database. Every error is answered before the
  first write, so the tables are as they were; a refused insert has drawn its id from the
  identity sequence, and PostgreSQL does not give that value back.
\<close>

fun burnt :: "error \<Rightarrow> state \<Rightarrow> state" where
  "burnt TransactionInsertRefused s = s\<lparr>transactionSeq := transactionSeq s + 1\<rparr>"
| "burnt BookInsertRefused s = s\<lparr>bookSeq := bookSeq s + 1\<rparr>"
| "burnt e s = s"

text \<open>The database after a call.\<close>

definition after :: "state \<Rightarrow> error + 'a \<times> state \<Rightarrow> state" where
  "after s r = (case r of Inl e \<Rightarrow> burnt e s | Inr (x, s') \<Rightarrow> s')"

text \<open>A transaction references a book as its requested or as its offered book.\<close>

definition references :: "transaction \<Rightarrow> int \<Rightarrow> bool" where
  "references t i = (t_requestedBookId t = i \<or> t_offeredBookId t = Some i)"

text \<open>
  The starting point of the workflow: no transaction yet, every book \<open>available\<close>
  (the column default).
\<close>

definition initial :: "state \<Rightarrow> bool" where
  "initial s = (transactions s = [] \<and> list_all (\<lambda>b. b_status b = ''available'') (books s))"

text \<open>The states the two transaction handlers reach from there, in any order of calls.\<close>

inductive reachable :: "state \<Rightarrow> bool" where
  reachable_initial: "initial s \<Longrightarrow> reachable s"
| reachable_create:
    "reachable s \<Longrightarrow> reachable (after s (createTransaction s user body))"
| reachable_update:
    "reachable s \<Longrightarrow> reachable (after s (updateTransaction s user param ubody))"

text \<open>
  What the schema and \<open>createTransaction\<close> guarantee of the rows in any database:
  transaction ids are a primary key drawn from the sequence, book ids are positive
  (identity columns start at 1), the two foreign keys of \<open>transactions\<close> into \<open>books\<close>
  hold, and no transaction offers the book it requests.
\<close>

definition well_formed :: "state \<Rightarrow> bool" where
  "well_formed s =
     (distinct (map t_id (transactions s)) \<and>
      list_all (\<lambda>t. t_id t < transactionSeq s) (transactions s) \<and>
      list_all (\<lambda>b. 0 < b_id b) (books s) \<and>
      list_all (\<lambda>t. t_requestedBookId t \<in> b_id ` set (books s) \<and>
                     (case t_offeredBookId t of
                        None \<Rightarrow> True
                      | Some j \<Rightarrow> j \<in> b_id ` set (books s) \<and> j \<noteq> t_requestedBookId t))
        (transactions s))"

section \<open>Auxiliary notions for the proofs\<close>

text \<open>
  The rows the loop of \<open>updateTransaction\<close> rejects and the books it releases, read off the
  selected rows, and the two bulk updates these sets amount to.
\<close>

definition rejected_ids :: "int \<Rightarrow> transaction list \<Rightarrow> int set" where
  "rejected_ids tid xs = t_id ` {t \<in> set xs. t_id t \<noteq> tid \<and> t_status t = Pending}"

definition released_books :: "int \<Rightarrow> transaction list \<Rightarrow> int set" where
  "released_books tid xs =
     (\<lambda>t. the (t_offeredBookId t)) `
       {t \<in> set xs. t_id t \<noteq> tid \<and> t_status t = Pending \<and> truthy (t_offeredBookId t)}"

definition reject_rows :: "int set \<Rightarrow> transaction list \<Rightarrow> transaction list" where
  "reject_rows R ts = map (\<lambda>t. if t_id t \<in> R then t\<lparr>t_status := Rejected\<rparr> else t) ts"

definition release_rows :: "int set \<Rightarrow> book list \<Rightarrow> book list" where
  "release_rows B bs = map (\<lambda>b. if b_id b \<in> B then b\<lparr>b_status := ''available''\<rparr> else b) bs"

definition snapshot :: "state \<Rightarrow> int \<Rightarrow> transaction \<Rightarrow> transaction list" where
  "snapshot s tid T =
     filter (\<lambda>t. t_requestedBookId t = t_requestedBookId T)
       (set_transaction_status (transactions s) tid Approved)"

text \<open>
  What holds of the rows in every reachable state: transaction ids are a primary key
  below the sequence; no stored \<open>offeredBookId\<close> is 0; the books a pending transaction
  references are \<open>pending\<close>; the requested book of an approved transaction is
  \<open>approved\<close>; two pending transactions reference no common book; two approved
  transactions request different books; and the \<open>ownerId\<close> of a transaction is the owner
  of its requested book.
\<close>

definition consistent :: "state \<Rightarrow> bool" where
  "consistent s =
     (distinct (map t_id (transactions s)) \<and>
      (\<forall>t\<in>set (transactions s). t_id t < transactionSeq s) \<and>
      (\<forall>t\<in>set (transactions s). t_offeredBookId t \<noteq> Some 0) \<and>
      (\<forall>t\<in>set (transactions s). t_status t = Pending \<longrightarrow>
         (\<forall>i. references t i \<longrightarrow> book_status s i = Some ''pending'')) \<and>
      (\<forall>t\<in>set (transactions s). t_status t = Approved \<longrightarrow>
         book_status s (t_requestedBookId t) = Some ''approved'') \<and>
      (\<forall>t\<in>set (transactions s). \<forall>t'\<in>set (transactions s).
         t_status t = Pending \<and> t_status t' = Pending \<and>
         (\<exists>i. references t i \<and> references t' i) \<longrightarrow> t = t') \<and>
      (\<forall>t\<in>set (transactions s). \<forall>t'\<in>set (transactions s).
         t_status t = Approved \<and> t_status t' = Approved \<and>
         t_requestedBookId t = t_requestedBookId t' \<longrightarrow> t = t') \<and>
      (\<forall>t\<in>set (transactions s).
         map_option b_ownerId (select_book (books s) (t_requestedBookId t)) = Some (t_ownerId t)))"

text \<open>
  Every \<open>pending\<close> book is accounted for by a pending transaction that references it or
  by an approved transaction that offered it.
\<close>

definition accounted :: "state \<Rightarrow> bool" where
  "accounted s =
     (\<forall>i. book_status s i = Some ''pending'' \<longrightarrow>
        (\<exists>t\<in>set (transactions s).
           (t_status t = Pending \<and> references t i) \<or>
           (t_status t = Approved \<and> t_offeredBookId t = Some i)))"

section \<open>The validation rules of the specification\<close>

text \<open>
  The rules a to g of the specification's validation sequence for a request
  (section 4.3), each read on the database for the requester \<open>u\<close> and the body of the
  call; rule f is split into its four parts. They are stated here from the specification's
  words, to compare the order in which \<open>createTransaction\<close> applies them.
\<close>

definition rule_a :: "state \<Rightarrow> create_body \<Rightarrow> bool" where
  "rule_a s body = (select_book (books s) (requestedBookId body) \<noteq> None)"

definition rule_b :: "state \<Rightarrow> create_body \<Rightarrow> bool" where
  "rule_b s body = (book_status s (requestedBookId body) = Some ''available'')"

definition rule_c :: "state \<Rightarrow> create_body \<Rightarrow> bool" where
  "rule_c s body =
     (map_option b_ownerId (select_book (books s) (requestedBookId body)) = Some (ownerId body))"

definition rule_d :: "state \<Rightarrow> int \<Rightarrow> create_body \<Rightarrow> bool" where
  "rule_d s u body =
     (map_option b_ownerId (select_book (books s) (requestedBookId body)) \<noteq> Some u)"

definition rule_e :: "state \<Rightarrow> create_body \<Rightarrow> bool" where
  "rule_e s body =
     (map_option b_availabilityType (select_book (books s) (requestedBookId body)) =
        Some (type body))"

definition offered_book :: "state \<Rightarrow> create_body \<Rightarrow> book option" where
  "offered_book s body =
     (case offeredBookId body of None \<Rightarrow> None | Some j \<Rightarrow> select_book (books s) j)"

definition rule_f_exists :: "state \<Rightarrow> create_body \<Rightarrow> bool" where
  "rule_f_exists s body = (offered_book s body \<noteq> None)"

definition rule_f_owned :: "state \<Rightarrow> int \<Rightarrow> create_body \<Rightarrow> bool" where
  "rule_f_owned s u body = (map_option b_ownerId (offered_book s body) = Some u)"

definition rule_f_available :: "state \<Rightarrow> create_body \<Rightarrow> bool" where
  "rule_f_available s body = (map_option b_status (offered_book s body) = Some ''available'')"

definition rule_f_differs :: "create_body \<Rightarrow> bool" where
  "rule_f_differs body = (offeredBookId body \<noteq> Some (requestedBookId body))"

definition rule_f :: "state \<Rightarrow> int \<Rightarrow> create_body \<Rightarrow> bool" where
  "rule_f s u body =
     (type body \<noteq> Exchange \<or>
      (rule_f_exists s body \<and> rule_f_owned s u body \<and> rule_f_available s body \<and>
       rule_f_differs body))"

definition rule_g :: "state \<Rightarrow> int \<Rightarrow> create_body \<Rightarrow> bool" where
  "rule_g s u body =
     (\<not> list_ex (\<lambda>t. t_requesterId t = u \<and> t_requestedBookId t = requestedBookId body \<and>
                      t_status t = Pending) (transactions s))"

section \<open>Example databases\<close>

text \<open>
  Three users with one book each, used below to run the handlers on concrete calls.
\<close>

definition bookA :: book where
  "bookA = \<lparr>b_id = 1, b_title = ''Matilda'', b_author = ''Roald Dahl'', b_genre = ''Fiction'',
     b_ageGroup = ''8-12'', b_coverImage = ''https://example.org/matilda.png'',
     b_availabilityType = Exchange, b_status = ''available'', b_ownerId = 1\<rparr>"

definition bookB :: book where
  "bookB = \<lparr>b_id = 2, b_title = ''Heidi'', b_author = ''Johanna Spyri'', b_genre = ''Fiction'',
     b_ageGroup = ''8-12'', b_coverImage = ''https://example.org/heidi.png'',
     b_availabilityType = Exchange, b_status = ''available'', b_ownerId = 2\<rparr>"

definition bookC :: book where
  "bookC = \<lparr>b_id = 3, b_title = ''Momo'', b_author = ''Michael Ende'', b_genre = ''Fantasy'',
     b_ageGroup = ''8-12'', b_coverImage = ''https://example.org/momo.png'',
     b_availabilityType = Free, b_status = ''available'', b_ownerId = 3\<rparr>"

text \<open>A row of \<open>transactions\<close> asking user 1 for a book in exchange.\<close>

definition request ::
  "int \<Rightarrow> int \<Rightarrow> int \<Rightarrow> int option \<Rightarrow> transaction_status \<Rightarrow> transaction" where
  "request i requester requested offered st =
     \<lparr>t_id = i, t_requesterId = requester, t_requestedBookId = requested, t_ownerId = 1,
      t_type = Exchange, t_offeredBookId = offered, t_status = st\<rparr>"

text \<open>The body \<open>{status: st}\<close> of a PATCH.\<close>

definition decide :: "transaction_status \<Rightarrow> update_body" where
  "decide st = \<lparr>ub_id = None, ub_status = Some st\<rparr>"

text \<open>The body of a POST asking for book \<open>i\<close> of user \<open>owner\<close>.\<close>

definition ask :: "int \<Rightarrow> int \<Rightarrow> transaction_type \<Rightarrow> int option \<Rightarrow> create_body" where
  "ask i owner ty offered =
     \<lparr>requestedBookId = i, ownerId = owner, type = ty, offeredBookId = offered\<rparr>"

text \<open>Nothing requested yet.\<close>

definition shelf :: state where
  "shelf = \<lparr>users = [1, 2, 3], books = [bookA, bookB, bookC], transactions = [],
            bookSeq = 4, transactionSeq = 1\<rparr>"

text \<open>
  Two pending requests for book 1, offering books 2 and 3, and an older rejected one
  (scenario 3 of the specification).
\<close>

definition contended :: state where
  "contended =
     \<lparr>users = [1, 2, 3],
      books = [bookA\<lparr>b_status := ''pending''\<rparr>, bookB\<lparr>b_status := ''pending''\<rparr>,
               bookC\<lparr>b_status := ''pending''\<rparr>],
      transactions = [request 1 2 1 (Some 2) Pending, request 2 3 1 (Some 3) Pending,
                      request 3 3 1 (Some 3) Rejected],
      bookSeq = 4, transactionSeq = 4\<rparr>"

text \<open>User 2 has asked for book 1 and offers book 2 (what \<open>createTransaction\<close> makes of \<open>shelf\<close>).\<close>

definition exchange_requested :: state where
  "exchange_requested =
     \<lparr>users = [1, 2, 3],
      books = [bookA\<lparr>b_status := ''pending''\<rparr>, bookB\<lparr>b_status := ''pending''\<rparr>, bookC],
      transactions = [request 1 2 1 (Some 2) Pending],
      bookSeq = 4, transactionSeq = 2\<rparr>"

text \<open>The owner has approved that request (what \<open>updateTransaction\<close> makes of it).\<close>

definition exchange_approved :: state where
  "exchange_approved =
     \<lparr>users = [1, 2, 3],
      books = [bookA\<lparr>b_status := ''approved''\<rparr>, bookB\<lparr>b_status := ''pending''\<rparr>, bookC],
      transactions = [request 1 2 1 (Some 2) Approved],
      bookSeq = 4, transactionSeq = 2\<rparr>"

text \<open>
  Book 1 was given to user 3 while the request for it was pending (what \<open>updateBook\<close>
  with the body \<open>{ownerId: 3}\<close> makes of \<open>exchange_requested\<close>).
\<close>

definition handed_over :: state where
  "handed_over =
     \<lparr>users = [1, 2, 3],
      books = [bookA\<lparr>b_status := ''pending'', b_ownerId := 3\<rparr>,
               bookB\<lparr>b_status := ''pending''\<rparr>, bookC],
      transactions = [request 1 2 1 (Some 2) Pending],
      bookSeq = 4, transactionSeq = 2\<rparr>"

text \<open>A PATCH body for a book that tries to set its \<open>status\<close> along with its title.\<close>

definition patch :: jobject where
  "patch = [''status'' \<mapsto> JString ''available'', ''title'' \<mapsto> JString ''Matilda (signed)'']"

text \<open>The PATCH body \<open>{ownerId: 3}\<close> for a book, and a URL test that accepts every string.\<close>

definition give_away :: jobject where
  "give_away = [''ownerId'' \<mapsto> JInt 3]"

definition any_url :: "string \<Rightarrow> bool" where
  "any_url x = True"

section \<open>Queries and updates\<close>

lemma books_burnt [simp]: "books (burnt e s) = books s"
  by (cases e) simp_all

lemma transactions_burnt [simp]: "transactions (burnt e s) = transactions s"
  by (cases e) simp_all

lemma users_burnt [simp]: "users (burnt e s) = users s"
  by (cases e) simp_all

lemma book_status_burnt [simp]: "book_status (burnt e s) i = book_status s i"
  by (simp add: book_status_def)

lemma burnt_other:
  "e \<noteq> TransactionInsertRefused \<Longrightarrow> e \<noteq> BookInsertRefused \<Longrightarrow> burnt e s = s"
  by (cases e) simp_all

lemma transactionSeq_burnt: "transactionSeq s \<le> transactionSeq (burnt e s)"
  by (cases e) simp_all

lemma select_book_set_book_status:
  "select_book (set_book_status bs i v) k =
     (if k = i then map_option (\<lambda>b. b\<lparr>b_status := v\<rparr>) (select_book bs i) else select_book bs k)"
  by (induction bs) (auto simp: select_book_def set_book_status_def)

lemma select_book_Some: "select_book bs i = Some b \<Longrightarrow> b \<in> set bs \<and> b_id b = i"
  by (auto simp: select_book_def find_Some_iff)

lemma select_transaction_Some:
  "select_transaction ts i = Some t \<Longrightarrow> t \<in> set ts \<and> t_id t = i"
  by (auto simp: select_transaction_def find_Some_iff)

lemma select_transaction_distinct:
  "distinct (map t_id ts) \<Longrightarrow> t \<in> set ts \<Longrightarrow> select_transaction ts (t_id t) = Some t"
  by (induction ts) (auto simp: select_transaction_def)

lemma ids_set_transaction_status [simp]:
  "map t_id (set_transaction_status ts i v) = map t_id ts"
  by (simp add: set_transaction_status_def)

lemma ids_set_book_status [simp]:
  "map b_id (set_book_status bs i v) = map b_id bs"
  by (simp add: set_book_status_def)

lemma rejected_ids_Nil [simp]: "rejected_ids tid [] = {}"
  by (simp add: rejected_ids_def)

lemma rejected_ids_Cons [simp]:
  "rejected_ids tid (x # xs) =
     (if t_id x \<noteq> tid \<and> t_status x = Pending then insert (t_id x) (rejected_ids tid xs)
      else rejected_ids tid xs)"
  by (auto simp: rejected_ids_def)

lemma released_books_Nil [simp]: "released_books tid [] = {}"
  by (simp add: released_books_def)

lemma released_books_Cons [simp]:
  "released_books tid (x # xs) =
     (if t_id x \<noteq> tid \<and> t_status x = Pending \<and> truthy (t_offeredBookId x)
      then insert (the (t_offeredBookId x)) (released_books tid xs)
      else released_books tid xs)"
  by (auto simp: released_books_def)

lemma reject_rows_empty [simp]: "reject_rows {} ts = ts"
  by (simp add: reject_rows_def)

lemma release_rows_empty [simp]: "release_rows {} bs = bs"
  by (simp add: release_rows_def)

lemma reject_rows_insert:
  "reject_rows R (set_transaction_status ts i Rejected) = reject_rows (insert i R) ts"
  by (simp add: reject_rows_def set_transaction_status_def)

lemma release_rows_insert:
  "release_rows B (set_book_status bs i ''available'') = release_rows (insert i B) bs"
  by (simp add: release_rows_def set_book_status_def)

lemma reject_others_closed:
  "reject_others tid xs s =
     s\<lparr>books := release_rows (released_books tid xs) (books s),
       transactions := reject_rows (rejected_ids tid xs) (transactions s)\<rparr>"
proof (induction xs arbitrary: s)
  case Nil
  show ?case by simp
next
  case (Cons x xs)
  show ?case
    by (simp add: Cons.IH Let_def reject_rows_insert release_rows_insert)
qed

lemma select_book_None_iff: "select_book bs i = None \<longleftrightarrow> i \<notin> b_id ` set bs"
  by (auto simp: select_book_def find_None_iff)

lemma select_book_release_rows:
  "select_book (release_rows B bs) k =
     (if k \<in> B then map_option (\<lambda>b. b\<lparr>b_status := ''available''\<rparr>) (select_book bs k)
      else select_book bs k)"
  by (induction bs) (auto simp: select_book_def release_rows_def)

lemma select_transaction_set_status:
  "select_transaction (set_transaction_status ts i v) k =
     (if k = i then map_option (\<lambda>t. t\<lparr>t_status := v\<rparr>) (select_transaction ts i)
      else select_transaction ts k)"
  by (induction ts) (auto simp: select_transaction_def set_transaction_status_def)

lemma select_transaction_reject_rows:
  "select_transaction (reject_rows R ts) k =
     (if k \<in> R then map_option (\<lambda>t. t\<lparr>t_status := Rejected\<rparr>) (select_transaction ts k)
      else select_transaction ts k)"
  by (induction ts) (auto simp: select_transaction_def reject_rows_def)

lemma book_status_books_update [simp]:
  "book_status (s\<lparr>books := bs\<rparr>) i = map_option b_status (select_book bs i)"
  by (simp add: book_status_def)

lemma distinct_ids_eq:
  "distinct (map t_id ts) \<Longrightarrow> a \<in> set ts \<Longrightarrow> b \<in> set ts \<Longrightarrow> t_id a = t_id b \<Longrightarrow> a = b"
  by (auto simp: distinct_map inj_on_def)

lemma exchange_checks_None:
  assumes "exchange_checks s u body = None" "type body = Exchange"
  shows "\<exists>j ob. offeredBookId body = Some j \<and> j \<noteq> 0 \<and> select_book (books s) j = Some ob \<and>
           b_ownerId ob = u \<and> b_status ob = ''available'' \<and> j \<noteq> requestedBookId body"
  using assms
  by (cases "offeredBookId body")
     (auto simp: exchange_checks_def split: if_splits option.splits)

lemma createTransaction_Inr:
  assumes "createTransaction s user body = Inr (t, s')"
  shows "\<exists>u book. user = Some u \<and> u \<noteq> 0 \<and> createTransactionSchema body \<and>
           select_book (books s) (requestedBookId body) = Some book \<and>
           b_status book = ''available'' \<and> b_ownerId book = ownerId body \<and>
           exchange_checks s u body = None \<and> b_ownerId book \<noteq> u \<and>
           b_availabilityType book = type body \<and>
           \<not> existingTransaction s u (requestedBookId body) \<and>
           u \<in> set (users s) \<and> ownerId body \<in> set (users s) \<and>
           insert_transaction s u body = (t, s')"
  using assms
  by (cases user) (auto simp: createTransaction_def split: if_splits option.splits)

lemma references_simps:
  "references t i \<longleftrightarrow> t_requestedBookId t = i \<or> t_offeredBookId t = Some i"
  by (simp add: references_def)

lemma createTransaction_effect:
  assumes "createTransaction s user body = Inr (t, s')"
  shows "transactions s' = transactions s @ [t]"
    and "transactionSeq s' = transactionSeq s + 1"
    and "users s' = users s"
    and "t_id t = transactionSeq s"
    and "t_status t = Pending"
    and "t_requestedBookId t = requestedBookId body"
    and "user = Some (t_requesterId t)"
    and "t_offeredBookId t \<noteq> Some 0"
    and "t_offeredBookId t \<noteq> Some (t_requestedBookId t)"
    and "\<And>i. references t i \<Longrightarrow> book_status s i = Some ''available''"
    and "\<And>i. book_status s' i = (if references t i then Some ''pending'' else book_status s i)"
    and "\<And>i. map_option b_ownerId (select_book (books s') i) = map_option b_ownerId (select_book (books s) i)"
    and "map_option b_ownerId (select_book (books s) (t_requestedBookId t)) = Some (t_ownerId t)"
    and "map b_id (books s') = map b_id (books s)"
proof -
  from createTransaction_Inr [OF assms] obtain u book where
    u: "user = Some u" "u \<noteq> 0" and sch: "createTransactionSchema body" and
    bk: "select_book (books s) (requestedBookId body) = Some book"
        "b_status book = ''available''" "b_ownerId book = ownerId body" and
    ex: "exchange_checks s u body = None" and
    ins: "insert_transaction s u body = (t, s')"
    by blast
  show "transactions s' = transactions s @ [t]" "transactionSeq s' = transactionSeq s + 1"
       "users s' = users s" "t_id t = transactionSeq s" "t_status t = Pending"
       "t_requestedBookId t = requestedBookId body" "user = Some (t_requesterId t)"
       "t_offeredBookId t \<noteq> Some 0" "map b_id (books s') = map b_id (books s)"
    using ins u by (auto simp: insert_transaction_def Let_def split: if_splits)
  show "map_option b_ownerId (select_book (books s) (t_requestedBookId t)) = Some (t_ownerId t)"
    using ins bk by (auto simp: insert_transaction_def Let_def split: if_splits)
  show "\<And>i. map_option b_ownerId (select_book (books s') i) = map_option b_ownerId (select_book (books s) i)"
    using ins
    by (auto simp: insert_transaction_def Let_def select_book_set_book_status option.map_comp o_def
             split: if_splits)
  show off: "t_offeredBookId t \<noteq> Some (t_requestedBookId t)"
  proof (cases "type body")
    case Free
    with sch ins show ?thesis
      by (auto simp: insert_transaction_def Let_def createTransactionSchema_def split: if_splits)
  next
    case Exchange
    from exchange_checks_None [OF ex Exchange] Exchange ins show ?thesis
      by (auto simp: insert_transaction_def Let_def split: if_splits)
  qed
  show "\<And>i. references t i \<Longrightarrow> book_status s i = Some ''available''"
  proof -
    fix i assume r: "references t i"
    show "book_status s i = Some ''available''"
    proof (cases "type body")
      case Free
      with sch ins r bk show ?thesis
        by (auto simp: insert_transaction_def Let_def createTransactionSchema_def references_def
            book_status_def split: if_splits)
    next
      case Exchange
      from exchange_checks_None [OF ex Exchange] Exchange ins r bk show ?thesis
        by (auto simp: insert_transaction_def Let_def references_def book_status_def
            split: if_splits)
    qed
  qed
  show "\<And>i. book_status s' i = (if references t i then Some ''pending'' else book_status s i)"
  proof -
    fix i
    show "book_status s' i = (if references t i then Some ''pending'' else book_status s i)"
    proof (cases "type body")
      case Free
      with sch ins bk show ?thesis
        by (auto simp: insert_transaction_def Let_def createTransactionSchema_def references_def
            book_status_def select_book_set_book_status split: if_splits)
    next
      case Exchange
      from exchange_checks_None [OF ex Exchange] Exchange ins bk show ?thesis
        by (auto simp: insert_transaction_def Let_def references_def book_status_def
            select_book_set_book_status split: if_splits)
    qed
  qed
qed

lemma transactionWithBook_Some:
  "transactionWithBook s tid = Some (T, B) \<longleftrightarrow>
     select_transaction (transactions s) tid = Some T \<and>
     select_book (books s) (t_requestedBookId T) = Some B"
  by (auto simp: transactionWithBook_def split: option.splits)

lemma updateTransaction_Inr:
  assumes "updateTransaction s user param body = Inr (r, s')"
  shows "\<exists>u tid status T B. user = Some u \<and> u \<noteq> 0 \<and> param = Some tid \<and> tid \<noteq> 0 \<and>
           updateTransactionSchema tid body = Some status \<and>
           transactionWithBook s tid = Some (T, B) \<and> b_ownerId B = u \<and>
           t_status T = Pending \<and> (status = Approved \<or> status = Rejected) \<and>
           resolve_writes s tid T status = (r, s')"
  using assms
  by (cases user; cases param)
     (auto simp: updateTransaction_def split: if_splits option.splits)

lemma resolve_writes_Approved:
  "resolve_writes s tid T Approved =
     (T\<lparr>t_status := Approved\<rparr>,
      s\<lparr>transactions := reject_rows (rejected_ids tid (snapshot s tid T))
                          (set_transaction_status (transactions s) tid Approved),
        books := set_book_status (release_rows (released_books tid (snapshot s tid T)) (books s))
                   (t_requestedBookId T) ''approved''\<rparr>)"
  by (simp add: resolve_writes_def Let_def reject_others_closed snapshot_def)

lemma resolve_writes_Rejected:
  "resolve_writes s tid T Rejected =
     (T\<lparr>t_status := Rejected\<rparr>,
      s\<lparr>transactions := set_transaction_status (transactions s) tid Rejected,
        books := set_book_status
                   (if truthy (t_offeredBookId T)
                    then set_book_status (books s) (the (t_offeredBookId T)) ''available''
                    else books s)
                   (t_requestedBookId T) ''available''\<rparr>)"
  by (simp add: resolve_writes_def Let_def)

lemma in_rejected_ids:
  assumes "distinct (map t_id (transactions s))" "t \<in> set (transactions s)" "t_id t \<noteq> tid"
  shows "t_id t \<in> rejected_ids tid (snapshot s tid T) \<longleftrightarrow>
           t_requestedBookId t = t_requestedBookId T \<and> t_status t = Pending"
proof
  assume "t_id t \<in> rejected_ids tid (snapshot s tid T)"
  then obtain o' where o': "o' \<in> set (snapshot s tid T)" "t_id o' \<noteq> tid" "t_status o' = Pending"
      "t_id o' = t_id t"
    by (auto simp: rejected_ids_def)
  then have "o' \<in> set (transactions s)" "t_requestedBookId o' = t_requestedBookId T"
    by (auto simp: snapshot_def set_transaction_status_def)
  with assms o' have "o' = t" by (auto dest: distinct_ids_eq)
  with o' \<open>t_requestedBookId o' = t_requestedBookId T\<close>
  show "t_requestedBookId t = t_requestedBookId T \<and> t_status t = Pending" by simp
next
  assume "t_requestedBookId t = t_requestedBookId T \<and> t_status t = Pending"
  with assms have "t \<in> set (snapshot s tid T)"
    by (auto simp: snapshot_def set_transaction_status_def image_iff)
  with assms \<open>t_requestedBookId t = t_requestedBookId T \<and> t_status t = Pending\<close>
  show "t_id t \<in> rejected_ids tid (snapshot s tid T)"
    by (auto simp: rejected_ids_def)
qed

lemma in_released_books:
  "j \<in> released_books tid (snapshot s tid T) \<longleftrightarrow>
     (\<exists>t\<in>set (transactions s). t_id t \<noteq> tid \<and> t_requestedBookId t = t_requestedBookId T \<and>
        t_status t = Pending \<and> t_offeredBookId t = Some j \<and> j \<noteq> 0)"
proof
  assume "j \<in> released_books tid (snapshot s tid T)"
  then obtain o' where o': "o' \<in> set (snapshot s tid T)" "t_id o' \<noteq> tid" "t_status o' = Pending"
      "truthy (t_offeredBookId o')" "j = the (t_offeredBookId o')"
    by (auto simp: released_books_def)
  then have "o' \<in> set (transactions s)" "t_requestedBookId o' = t_requestedBookId T"
    by (auto simp: snapshot_def set_transaction_status_def)
  moreover from o' have "t_offeredBookId o' = Some j \<and> j \<noteq> 0"
    by (cases "t_offeredBookId o'") auto
  ultimately show "\<exists>t\<in>set (transactions s). t_id t \<noteq> tid \<and>
      t_requestedBookId t = t_requestedBookId T \<and> t_status t = Pending \<and>
      t_offeredBookId t = Some j \<and> j \<noteq> 0"
    using o' by blast
next
  assume "\<exists>t\<in>set (transactions s). t_id t \<noteq> tid \<and> t_requestedBookId t = t_requestedBookId T \<and>
        t_status t = Pending \<and> t_offeredBookId t = Some j \<and> j \<noteq> 0"
  then obtain t where t: "t \<in> set (transactions s)" "t_id t \<noteq> tid"
      "t_requestedBookId t = t_requestedBookId T" "t_status t = Pending"
      "t_offeredBookId t = Some j" "j \<noteq> 0"
    by blast
  then have "t \<in> set (snapshot s tid T)"
    by (auto simp: snapshot_def set_transaction_status_def image_iff)
  with t show "j \<in> released_books tid (snapshot s tid T)"
    by (force simp: released_books_def image_iff)
qed

lemma well_formedD:
  assumes "well_formed s"
  shows "distinct (map t_id (transactions s))"
    and "\<And>t. t \<in> set (transactions s) \<Longrightarrow> t_id t < transactionSeq s"
    and "\<And>b. b \<in> set (books s) \<Longrightarrow> 0 < b_id b"
    and "\<And>t. t \<in> set (transactions s) \<Longrightarrow> select_book (books s) (t_requestedBookId t) \<noteq> None"
    and "\<And>t j. t \<in> set (transactions s) \<Longrightarrow> t_offeredBookId t = Some j \<Longrightarrow>
           select_book (books s) j \<noteq> None \<and> j \<noteq> t_requestedBookId t \<and> 0 < j"
proof -
  show "distinct (map t_id (transactions s))"
    and "\<And>t. t \<in> set (transactions s) \<Longrightarrow> t_id t < transactionSeq s"
    and pos: "\<And>b. b \<in> set (books s) \<Longrightarrow> 0 < b_id b"
    and "\<And>t. t \<in> set (transactions s) \<Longrightarrow> select_book (books s) (t_requestedBookId t) \<noteq> None"
    using assms
    by (auto simp: well_formed_def list_all_iff select_book_None_iff split: option.splits)
  fix t j assume t: "t \<in> set (transactions s)" "t_offeredBookId t = Some j"
  with assms have j: "j \<in> b_id ` set (books s)" "j \<noteq> t_requestedBookId t"
    by (auto simp: well_formed_def list_all_iff split: option.splits)
  from j(1) pos have "0 < j" by auto
  with j show "select_book (books s) j \<noteq> None \<and> j \<noteq> t_requestedBookId t \<and> 0 < j"
    by (simp add: select_book_None_iff)
qed

lemma rejected_ids_not_target: "tid \<notin> rejected_ids tid xs"
  by (auto simp: rejected_ids_def)

lemmas example_defs = bookA_def bookB_def bookC_def request_def decide_def ask_def shelf_def
  contended_def exchange_requested_def exchange_approved_def handed_over_def give_away_def
  any_url_def

lemma shelf_create:
  "createTransaction shelf (Some 2) (ask 1 1 Exchange (Some 2)) =
     Inr (request 1 2 1 (Some 2) Pending, exchange_requested)"
  by (simp add: createTransaction_def createTransactionSchema_def exchange_checks_def
      existingTransaction_def insert_transaction_def select_book_def set_book_status_def
      safe_positive_def int4_def missing_def Let_def example_defs)

lemmas rule_defs = rule_a_def rule_b_def rule_c_def rule_d_def rule_e_def rule_f_def rule_g_def
  rule_f_exists_def rule_f_owned_def rule_f_available_def rule_f_differs_def offered_book_def

lemmas create_defs = createTransaction_def createTransactionSchema_def exchange_checks_def
  existingTransaction_def insert_transaction_def select_book_def set_book_status_def
  safe_positive_def int4_def missing_def

lemmas update_defs = updateTransaction_def updateTransactionSchema_def transactionWithBook_def
  select_transaction_def select_book_def resolve_writes_def set_transaction_status_def
  set_book_status_def safe_positive_def int4_def missing_def

lemma exchange_checks_writes_nothing: "exchange_checks s u body = Some e \<Longrightarrow> burnt e s = s"
  by (auto simp: exchange_checks_def missing_def split: if_splits option.splits)


text \<open>
  Ids that the schema accepts and the integer column refuses, ids that the schema refuses,
  and an insert refused for the foreign key of the requester (user 7 does not exist).
\<close>

lemma out_of_range_requested:
  "createTransaction shelf (Some 2) (ask 2147483648 1 Free None) = Inl InternalServerError"
  by (simp add: create_defs example_defs)

lemma out_of_range_offered:
  "createTransaction shelf (Some 2) (ask 1 1 Exchange (Some 2147483648)) = Inl InternalServerError"
  by (simp add: create_defs example_defs)

lemma out_of_range_transaction:
  "updateTransaction exchange_requested (Some 1) (Some 2147483648) (decide Approved) =
     Inl InternalServerError"
  by (simp add: update_defs example_defs)

lemma out_of_range_book:
  "updateBook any_url shelf (Some 1) (Some 2147483648) patch = Inl InternalServerError"
  by (simp add: updateBook_def select_book_def missing_def int4_def example_defs)

lemma unsafe_requested:
  "createTransaction shelf (Some 2) (ask 9007199254740992 1 Free None) = Inl ValidationFailed"
  by (simp add: create_defs example_defs)

lemma unsafe_transaction:
  "updateTransaction exchange_requested (Some 1) (Some 9007199254740992) (decide Approved) =
     Inl ValidationFailed"
  by (simp add: update_defs example_defs)

lemma refused_insert:
  "createTransaction shelf (Some 7) (ask 3 3 Free None) = Inl TransactionInsertRefused"
  "after shelf (createTransaction shelf (Some 7) (ask 3 3 Free None)) =
     shelf\<lparr>transactionSeq := 2\<rparr>"
  by (simp_all add: create_defs after_def example_defs)





lemma b_id_set_columns [simp]: "b_id (set_columns d b) = b_id b"
  by (simp add: set_columns_def)

lemma b_status_set_columns [simp]: "b_status (set_columns d b) = b_status b"
  by (simp add: set_columns_def)

lemma select_book_set_columns:
  "select_book (map (\<lambda>b. if b_id b = p then set_columns d b else b) bs) i =
     map_option (\<lambda>b. if b_id b = p then set_columns d b else b) (select_book bs i)"
  by (induction bs) (auto simp: select_book_def)

lemma select_book_append:
  "select_book (bs @ [nb]) i =
     (case select_book bs i of Some b \<Rightarrow> Some b | None \<Rightarrow> if b_id nb = i then Some nb else None)"
  by (induction bs) (auto simp: select_book_def)

lemma select_book_filter:
  "select_book (filter (\<lambda>b. b_id b \<noteq> p) bs) i = (if i = p then None else select_book bs i)"
  by (induction bs) (auto simp: select_book_def)

lemma status_set_columns:
  "map_option b_status (map_option (\<lambda>b. if b_id b = p then set_columns d b else b) x) =
     map_option b_status x"
  by (cases x) auto

lemma updateBook_after:
  "books (after s (updateBook is_url s user param body)) = books s \<or>
   (\<exists>d. books (after s (updateBook is_url s user param body)) =
          map (\<lambda>b. if b_id b = the param then set_columns d b else b) (books s))"
  by (auto simp: updateBook_def after_def split: option.splits)

lemma createBook_after:
  "books (after s (createBook is_url s user body)) = books s \<or>
   (\<exists>nb. books (after s (createBook is_url s user body)) = books s @ [nb])"
  by (auto simp: createBook_def after_def Let_def split: option.splits)

lemma deleteBook_after:
  "books (after s (deleteBook s user param)) = books s \<or>
   books (after s (deleteBook s user param)) = filter (\<lambda>b. b_id b \<noteq> the param) (books s)"
  by (auto simp: deleteBook_def after_def split: option.splits)

section \<open>Reachable states\<close>

lemma consistentD:
  assumes "consistent s"
  shows "distinct (map t_id (transactions s))"
    and "\<And>t. t \<in> set (transactions s) \<Longrightarrow> t_id t < transactionSeq s"
    and "\<And>t. t \<in> set (transactions s) \<Longrightarrow> t_offeredBookId t \<noteq> Some 0"
    and "\<And>t i. t \<in> set (transactions s) \<Longrightarrow> t_status t = Pending \<Longrightarrow> references t i \<Longrightarrow>
           book_status s i = Some ''pending''"
    and "\<And>t. t \<in> set (transactions s) \<Longrightarrow> t_status t = Approved \<Longrightarrow>
           book_status s (t_requestedBookId t) = Some ''approved''"
    and "\<And>t t' i. t \<in> set (transactions s) \<Longrightarrow> t' \<in> set (transactions s) \<Longrightarrow>
           t_status t = Pending \<Longrightarrow> t_status t' = Pending \<Longrightarrow>
           references t i \<Longrightarrow> references t' i \<Longrightarrow> t = t'"
    and "\<And>t t'. t \<in> set (transactions s) \<Longrightarrow> t' \<in> set (transactions s) \<Longrightarrow>
           t_status t = Approved \<Longrightarrow> t_status t' = Approved \<Longrightarrow>
           t_requestedBookId t = t_requestedBookId t' \<Longrightarrow> t = t'"
    and "\<And>t. t \<in> set (transactions s) \<Longrightarrow>
           map_option b_ownerId (select_book (books s) (t_requestedBookId t)) = Some (t_ownerId t)"
  using assms unfolding consistent_def by blast+

lemma consistent_initial: "initial s \<Longrightarrow> consistent s"
  by (simp add: initial_def consistent_def)

lemma consistent_create:
  assumes c: "consistent s" and run: "createTransaction s user body = Inr (t, s')"
  shows "consistent s'"
proof -
  note e = createTransaction_effect [OF run]
  note d = consistentD [OF c]
  have new: "x \<in> set (transactions s') \<longleftrightarrow> x \<in> set (transactions s) \<or> x = t" for x
    by (auto simp: e(1))
  have untouched: "\<not> references t i"
    if "x \<in> set (transactions s)" "t_status x = Pending" "references x i" for x i
    using d(4) [OF that] e(10) [of i] by auto
  have lt: "\<forall>x\<in>set (transactions s). t_id x < transactionSeq s"
    using d(2) by blast
  have 1: "distinct (map t_id (transactions s'))"
    using d(1) lt e(4) by (fastforce simp: e(1))
  have 2: "\<forall>x\<in>set (transactions s'). t_id x < transactionSeq s'"
    using lt e(4) by (fastforce simp: new e(2))
  have 3: "\<forall>x\<in>set (transactions s'). t_offeredBookId x \<noteq> Some 0"
    using d(3) e(8) by (auto simp: new)
  have 4: "\<forall>x\<in>set (transactions s'). t_status x = Pending \<longrightarrow>
         (\<forall>i. references x i \<longrightarrow> book_status s' i = Some ''pending'')"
    using d(4) by (auto simp: new e(11))
  have 5: "\<forall>x\<in>set (transactions s'). t_status x = Approved \<longrightarrow>
         book_status s' (t_requestedBookId x) = Some ''approved''"
  proof (intro ballI impI)
    fix x assume x: "x \<in> set (transactions s')" "t_status x = Approved"
    with e(5) have old: "x \<in> set (transactions s)" by (auto simp: new)
    from d(5) [OF old x(2)] e(10) [of "t_requestedBookId x"]
    have "\<not> references t (t_requestedBookId x)" by auto
    with d(5) [OF old x(2)] show "book_status s' (t_requestedBookId x) = Some ''approved''"
      by (simp add: e(11))
  qed
  have 6: "\<forall>x\<in>set (transactions s'). \<forall>y\<in>set (transactions s').
         t_status x = Pending \<and> t_status y = Pending \<and>
         (\<exists>i. references x i \<and> references y i) \<longrightarrow> x = y"
    using d(6) untouched by (auto simp: new)
  have 7: "\<forall>x\<in>set (transactions s'). \<forall>y\<in>set (transactions s').
         t_status x = Approved \<and> t_status y = Approved \<and>
         t_requestedBookId x = t_requestedBookId y \<longrightarrow> x = y"
    using d(7) e(5) by (auto simp: new)
  have 8: "\<forall>x\<in>set (transactions s').
         map_option b_ownerId (select_book (books s') (t_requestedBookId x)) = Some (t_ownerId x)"
    using d(8) e(13) by (auto simp: new e(12))
  from 1 2 3 4 5 6 7 8 show ?thesis
    unfolding consistent_def by blast
qed

lemma in_rejected_ids_iff:
  "x \<in> rejected_ids tid (snapshot s tid T) \<longleftrightarrow>
     (\<exists>t\<in>set (transactions s). t_id t = x \<and> t_id t \<noteq> tid \<and>
        t_requestedBookId t = t_requestedBookId T \<and> t_status t = Pending)"
proof
  assume "x \<in> rejected_ids tid (snapshot s tid T)"
  then obtain o' where o': "o' \<in> set (snapshot s tid T)" "t_id o' \<noteq> tid" "t_status o' = Pending"
      "t_id o' = x"
    by (auto simp: rejected_ids_def)
  then have "o' \<in> set (transactions s)" "t_requestedBookId o' = t_requestedBookId T"
    by (auto simp: snapshot_def set_transaction_status_def)
  with o' show "\<exists>t\<in>set (transactions s). t_id t = x \<and> t_id t \<noteq> tid \<and>
        t_requestedBookId t = t_requestedBookId T \<and> t_status t = Pending"
    by blast
next
  assume "\<exists>t\<in>set (transactions s). t_id t = x \<and> t_id t \<noteq> tid \<and>
        t_requestedBookId t = t_requestedBookId T \<and> t_status t = Pending"
  then obtain t where t: "t \<in> set (transactions s)" "t_id t = x" "t_id t \<noteq> tid"
      "t_requestedBookId t = t_requestedBookId T" "t_status t = Pending"
    by blast
  then have "t \<in> set (snapshot s tid T)"
    by (auto simp: snapshot_def set_transaction_status_def image_iff)
  with t show "x \<in> rejected_ids tid (snapshot s tid T)"
    by (force simp: rejected_ids_def image_iff)
qed

lemma set_set_transaction_status:
  assumes "distinct (map t_id ts)" "T \<in> set ts"
  shows "set (set_transaction_status ts (t_id T) v) = insert (T\<lparr>t_status := v\<rparr>) (set ts - {T})"
proof -
  have "t_id x = t_id T \<longleftrightarrow> x = T" if "x \<in> set ts" for x
    using distinct_ids_eq [OF assms(1) that assms(2)] by auto
  then show ?thesis
    using assms(2) by (auto simp: set_transaction_status_def image_iff)
qed

lemma updateTransaction_effect:
  assumes c: "consistent s" and run: "updateTransaction s user param body = Inr (r, s')"
  shows "\<exists>T st. T \<in> set (transactions s) \<and> t_status T = Pending \<and>
           (st = Approved \<or> st = Rejected) \<and>
           transactions s' = set_transaction_status (transactions s) (t_id T) st \<and>
           transactionSeq s' = transactionSeq s \<and>
           (\<forall>i. book_status s' i =
              (if st = Approved then (if i = t_requestedBookId T then Some ''approved'' else book_status s i)
               else (if references T i then Some ''available'' else book_status s i))) \<and>
           (\<forall>i. map_option b_ownerId (select_book (books s') i) =
                map_option b_ownerId (select_book (books s) i))"
proof -
  note d = consistentD [OF c]
  from updateTransaction_Inr [OF run] obtain tid st T B where
    T: "transactionWithBook s tid = Some (T, B)" "t_status T = Pending" and
    st: "st = Approved \<or> st = Rejected" and w: "resolve_writes s tid T st = (r, s')"
    by blast
  from T(1) have mem: "T \<in> set (transactions s)" and tid: "t_id T = tid"
    and selB: "select_book (books s) (t_requestedBookId T) = Some B"
    by (auto simp: transactionWithBook_Some dest: select_transaction_Some)
  have "t = T" if "t \<in> set (transactions s)" "t_status t = Pending"
    "t_requestedBookId t = t_requestedBookId T" for t
    using d(6) [OF that(1) mem that(2) T(2), of "t_requestedBookId T"] that(3)
    by (simp add: references_def)
  then have alone: "\<forall>t\<in>set (transactions s). t_status t = Pending \<and>
      t_requestedBookId t = t_requestedBookId T \<longrightarrow> t_id t = tid"
    using tid by blast
  have R: "rejected_ids tid (snapshot s tid T) = {}"
    using alone by (auto simp: in_rejected_ids_iff)
  have J: "released_books tid (snapshot s tid T) = {}"
    using alone by (auto simp: in_released_books)
  from st show ?thesis
  proof
    assume a: "st = Approved"
    with w R J have s': "s' = s\<lparr>transactions := set_transaction_status (transactions s) tid Approved,
        books := set_book_status (books s) (t_requestedBookId T) ''approved''\<rparr>"
      by (simp add: resolve_writes_Approved)
    have "\<forall>i. book_status s' i =
        (if i = t_requestedBookId T then Some ''approved'' else book_status s i)"
      using selB by (simp add: s' select_book_set_book_status book_status_def)
    moreover have "\<forall>i. map_option b_ownerId (select_book (books s') i) =
        map_option b_ownerId (select_book (books s) i)"
      by (simp add: s' select_book_set_book_status option.map_comp o_def)
    ultimately show ?thesis
      using mem T(2) a tid by (auto simp: s')
  next
    assume a: "st = Rejected"
    define bs1 where "bs1 = (if truthy (t_offeredBookId T)
       then set_book_status (books s) (the (t_offeredBookId T)) ''available'' else books s)"
    from a w have s': "s' = s\<lparr>transactions := set_transaction_status (transactions s) tid Rejected,
        books := set_book_status bs1 (t_requestedBookId T) ''available''\<rparr>"
      by (simp add: resolve_writes_Rejected bs1_def)
    have "book_status s' i = (if references T i then Some ''available'' else book_status s i)" for i
    proof (cases "t_offeredBookId T")
      case None
      with selB show ?thesis
        by (auto simp: s' bs1_def select_book_set_book_status book_status_def references_def)
    next
      case (Some j)
      with d(3) [OF mem] have j: "j \<noteq> 0" by auto
      from d(4) [OF mem T(2), of j] Some obtain b where "select_book (books s) j = Some b"
        by (auto simp: references_def book_status_def)
      with Some j selB show ?thesis
        by (auto simp: s' bs1_def select_book_set_book_status book_status_def references_def)
    qed
    moreover have "\<forall>i. map_option b_ownerId (select_book (books s') i) =
        map_option b_ownerId (select_book (books s) i)"
      by (simp add: s' bs1_def select_book_set_book_status option.map_comp o_def)
    ultimately show ?thesis
      using mem T(2) a tid by (auto simp: s')
  qed
qed

lemma consistent_update:
  assumes c: "consistent s" and run: "updateTransaction s user param body = Inr (r, s')"
  shows "consistent s'"
proof -
  note d = consistentD [OF c]
  from updateTransaction_effect [OF c run] obtain T st where
    mem: "T \<in> set (transactions s)" and pen: "t_status T = Pending" and
    st: "st = Approved \<or> st = Rejected" and
    ts: "transactions s' = set_transaction_status (transactions s) (t_id T) st" and
    seq: "transactionSeq s' = transactionSeq s" and
    bs: "\<forall>i. book_status s' i =
           (if st = Approved then (if i = t_requestedBookId T then Some ''approved'' else book_status s i)
            else (if references T i then Some ''available'' else book_status s i))" and
    ow: "\<forall>i. map_option b_ownerId (select_book (books s') i) =
              map_option b_ownerId (select_book (books s) i)"
    by blast
  define T' where "T' = T\<lparr>t_status := st\<rparr>"
  have new: "x \<in> set (transactions s') \<longleftrightarrow> x = T' \<or> (x \<in> set (transactions s) \<and> x \<noteq> T)" for x
    by (auto simp: ts T'_def set_set_transaction_status [OF d(1) mem])
  have T': "t_id T' = t_id T" "t_requestedBookId T' = t_requestedBookId T"
    "t_offeredBookId T' = t_offeredBookId T" "t_ownerId T' = t_ownerId T" "t_status T' = st"
    by (simp_all add: T'_def)
  from st have notpending: "st \<noteq> Pending" by auto
  have old: "x \<in> set (transactions s) \<and> x \<noteq> T"
    if "x \<in> set (transactions s')" "x \<noteq> T'" for x
    using that by (simp add: new)
  have Tpending: "book_status s i = Some ''pending''" if "references T i" for i
    using d(4) [OF mem pen that] .
  have apart: "\<not> references T i"
    if "x \<in> set (transactions s)" "x \<noteq> T" "t_status x = Pending" "references x i" for x i
    using d(6) [OF that(1) mem that(3) pen that(4)] that(2) by auto
  have 1: "distinct (map t_id (transactions s'))"
    using d(1) by (simp add: ts)
  have 2: "\<forall>x\<in>set (transactions s'). t_id x < transactionSeq s'"
  proof
    fix x assume "x \<in> set (transactions s')"
    then have "x = T' \<or> x \<in> set (transactions s)" by (auto simp: new)
    with d(2) [OF mem] d(2) [of x] T'(1) show "t_id x < transactionSeq s'"
      by (auto simp: seq)
  qed
  have 3: "\<forall>x\<in>set (transactions s'). t_offeredBookId x \<noteq> Some 0"
  proof
    fix x assume "x \<in> set (transactions s')"
    then have "x = T' \<or> x \<in> set (transactions s)" by (auto simp: new)
    with d(3) [OF mem] d(3) [of x] T'(3) show "t_offeredBookId x \<noteq> Some 0"
      by auto
  qed
  have 4: "\<forall>x\<in>set (transactions s'). t_status x = Pending \<longrightarrow>
         (\<forall>i. references x i \<longrightarrow> book_status s' i = Some ''pending'')"
  proof (intro ballI impI allI)
    fix x i assume x: "x \<in> set (transactions s')" "t_status x = Pending" "references x i"
    from x(2) T'(5) notpending have "x \<noteq> T'" by auto
    from old [OF x(1) this] have o: "x \<in> set (transactions s)" "x \<noteq> T" by blast+
    from apart [OF o x(2) x(3)] have "\<not> references T i" .
    with d(4) [OF o(1) x(2) x(3)] bs show "book_status s' i = Some ''pending''"
      by (auto simp: references_def)
  qed
  have 5: "\<forall>x\<in>set (transactions s'). t_status x = Approved \<longrightarrow>
         book_status s' (t_requestedBookId x) = Some ''approved''"
  proof (intro ballI impI)
    fix x assume x: "x \<in> set (transactions s')" "t_status x = Approved"
    show "book_status s' (t_requestedBookId x) = Some ''approved''"
    proof (cases "x = T'")
      case True
      with x(2) T'(5) have "st = Approved" by simp
      with bs True T'(2) show ?thesis by simp
    next
      case False
      from old [OF x(1) False] have o: "x \<in> set (transactions s)" by blast
      from d(5) [OF o x(2)] Tpending [of "t_requestedBookId x"]
      have "\<not> references T (t_requestedBookId x)" by auto
      with d(5) [OF o x(2)] bs show ?thesis
        by (auto simp: references_def)
    qed
  qed
  have 6: "\<forall>x\<in>set (transactions s'). \<forall>y\<in>set (transactions s').
         t_status x = Pending \<and> t_status y = Pending \<and>
         (\<exists>i. references x i \<and> references y i) \<longrightarrow> x = y"
  proof (intro ballI impI)
    fix x y assume x: "x \<in> set (transactions s')" and y: "y \<in> set (transactions s')"
      and h: "t_status x = Pending \<and> t_status y = Pending \<and> (\<exists>i. references x i \<and> references y i)"
    from h T'(5) notpending have "x \<noteq> T'" "y \<noteq> T'" by auto
    with old [OF x] old [OF y] have "x \<in> set (transactions s)" "y \<in> set (transactions s)"
      by blast+
    with h d(6) show "x = y" by blast
  qed
  have 7: "\<forall>x\<in>set (transactions s'). \<forall>y\<in>set (transactions s').
         t_status x = Approved \<and> t_status y = Approved \<and>
         t_requestedBookId x = t_requestedBookId y \<longrightarrow> x = y"
  proof (intro ballI impI)
    fix x y assume x: "x \<in> set (transactions s')" and y: "y \<in> set (transactions s')"
      and h: "t_status x = Approved \<and> t_status y = Approved \<and>
              t_requestedBookId x = t_requestedBookId y"
    have clash: False if "z \<in> set (transactions s)" "t_status z = Approved"
      "t_requestedBookId z = t_requestedBookId T" for z
      using d(5) [OF that(1) that(2)] Tpending [of "t_requestedBookId T"] that(3)
      by (simp add: references_def)
    have other: False if "z \<in> set (transactions s')" "z \<noteq> T'" "t_status z = Approved"
      "t_requestedBookId z = t_requestedBookId T" for z
    proof -
      from old [OF that(1,2)] have "z \<in> set (transactions s)" by blast
      from clash [OF this that(3,4)] show False .
    qed
    from h have hx: "t_status x = Approved" and hy: "t_status y = Approved"
      and hr: "t_requestedBookId x = t_requestedBookId y"
      by blast+
    show "x = y"
    proof (cases "x = T'")
      case xT: True
      show ?thesis
      proof (cases "y = T'")
        case True
        with xT show ?thesis by blast
      next
        case False
        from hr xT T'(2) have "t_requestedBookId y = t_requestedBookId T" by metis
        from other [OF y False hy this] show ?thesis ..
      qed
    next
      case xT: False
      show ?thesis
      proof (cases "y = T'")
        case True
        from hr True T'(2) have "t_requestedBookId x = t_requestedBookId T" by metis
        from other [OF x xT hx this] show ?thesis ..
      next
        case False
        with xT old [OF x] old [OF y]
        have "x \<in> set (transactions s)" "y \<in> set (transactions s)"
          by blast+
        with h d(7) show ?thesis by blast
      qed
    qed
  qed
  have 8: "\<forall>x\<in>set (transactions s').
         map_option b_ownerId (select_book (books s') (t_requestedBookId x)) = Some (t_ownerId x)"
  proof
    fix x assume "x \<in> set (transactions s')"
    then have "x = T' \<or> x \<in> set (transactions s)" by (auto simp: new)
    with d(8) [OF mem] d(8) [of x] T'(2,4) ow
    show "map_option b_ownerId (select_book (books s') (t_requestedBookId x)) = Some (t_ownerId x)"
      by auto
  qed
  from 1 2 3 4 5 6 7 8 show ?thesis
    unfolding consistent_def by blast
qed

lemma consistent_burnt: "consistent s \<Longrightarrow> consistent (burnt e s)"
proof -
  assume c: "consistent s"
  have "\<forall>t\<in>set (transactions s). t_id t < transactionSeq (burnt e s)"
  proof
    fix t assume "t \<in> set (transactions s)"
    with consistentD(2) [OF c] have "t_id t < transactionSeq s" by blast
    with transactionSeq_burnt [of s e] show "t_id t < transactionSeq (burnt e s)" by simp
  qed
  with c show ?thesis by (simp add: consistent_def)
qed

lemma consistent_after_create:
  "consistent s \<Longrightarrow> consistent (after s (createTransaction s user body))"
proof (cases "createTransaction s user body")
  case (Inl e)
  assume "consistent s"
  with Inl show ?thesis by (simp add: after_def consistent_burnt)
next
  case (Inr p)
  assume c: "consistent s"
  obtain t s' where p: "p = (t, s')" by (cases p)
  from consistent_create [OF c Inr [unfolded p]] Inr p show ?thesis
    by (simp add: after_def)
qed

lemma consistent_after_update:
  "consistent s \<Longrightarrow> consistent (after s (updateTransaction s user param body))"
proof (cases "updateTransaction s user param body")
  case (Inl e)
  assume "consistent s"
  with Inl show ?thesis by (simp add: after_def consistent_burnt)
next
  case (Inr p)
  assume c: "consistent s"
  obtain t s' where p: "p = (t, s')" by (cases p)
  from consistent_update [OF c Inr [unfolded p]] Inr p show ?thesis
    by (simp add: after_def)
qed

lemma reachable_consistent: "reachable s \<Longrightarrow> consistent s"
  by (induction rule: reachable.induct)
     (auto intro: consistent_initial consistent_after_create consistent_after_update)

lemma filter_at_most_one:
  assumes "distinct xs" "\<forall>x\<in>set xs. \<forall>y\<in>set xs. P x \<and> P y \<longrightarrow> x = y"
  shows "length (filter P xs) \<le> 1"
proof -
  define ys where "ys = filter P xs"
  have sub: "\<forall>x\<in>set ys. \<forall>y\<in>set ys. x = y"
    using assms(2) by (auto simp: ys_def)
  have "distinct ys" using assms(1) by (simp add: ys_def)
  then have len: "length ys = card (set ys)"
    by (metis distinct_card)
  have "card (set ys) \<le> 1"
  proof (cases ys)
    case Nil
    then show ?thesis by simp
  next
    case (Cons a zs)
    with sub have "set ys \<subseteq> {a}" by auto
    then have "card (set ys) \<le> card {a}"
      by (intro card_mono) auto
    then show ?thesis by simp
  qed
  with len show ?thesis by (simp add: ys_def)
qed

lemma reachable_shelf: "reachable shelf"
  by (rule reachable_initial) (simp add: initial_def example_defs)

lemma reachable_exchange_requested: "reachable exchange_requested"
  using reachable_create [OF reachable_shelf, of "Some 2" "ask 1 1 Exchange (Some 2)"]
  by (simp add: shelf_create after_def)

lemma exchange_approve:
  "updateTransaction exchange_requested (Some 1) (Some 1) (decide Approved) =
     Inr (request 1 2 1 (Some 2) Approved, exchange_approved)"
  by (simp add: update_defs example_defs Let_def)

lemma reachable_exchange_approved: "reachable exchange_approved"
  using reachable_update [OF reachable_exchange_requested, of "Some 1" "Some 1" "decide Approved"]
  by (simp add: exchange_approve after_def)

lemma accounted_initial: "initial s \<Longrightarrow> accounted s"
proof -
  assume i: "initial s"
  have "book_status s i \<noteq> Some ''pending''" for i
  proof
    assume "book_status s i = Some ''pending''"
    then obtain b where "select_book (books s) i = Some b" "b_status b = ''pending''"
      by (auto simp: book_status_def)
    then have "b \<in> set (books s)" "b_status b = ''pending''"
      by (auto dest: select_book_Some)
    with i show False by (auto simp: initial_def list_all_iff)
  qed
  then show ?thesis by (simp add: accounted_def)
qed

lemma accounted_create:
  assumes a: "accounted s" and run: "createTransaction s user body = Inr (t, s')"
  shows "accounted s'"
  unfolding accounted_def
proof (intro allI impI)
  note e = createTransaction_effect [OF run]
  fix i assume p: "book_status s' i = Some ''pending''"
  show "\<exists>x\<in>set (transactions s').
          (t_status x = Pending \<and> references x i) \<or>
          (t_status x = Approved \<and> t_offeredBookId x = Some i)"
  proof (cases "references t i")
    case True
    with e(5) show ?thesis by (auto simp: e(1))
  next
    case False
    with p have "book_status s i = Some ''pending''" by (simp add: e(11))
    with a show ?thesis by (auto simp: accounted_def e(1))
  qed
qed

lemma accounted_update:
  assumes c: "consistent s" and a: "accounted s"
    and run: "updateTransaction s user param body = Inr (r, s')"
  shows "accounted s'"
  unfolding accounted_def
proof (intro allI impI)
  note d = consistentD [OF c]
  from updateTransaction_effect [OF c run] obtain T st where
    mem: "T \<in> set (transactions s)" and pen: "t_status T = Pending" and
    st: "st = Approved \<or> st = Rejected" and
    ts: "transactions s' = set_transaction_status (transactions s) (t_id T) st" and
    bs: "\<forall>i. book_status s' i =
           (if st = Approved then (if i = t_requestedBookId T then Some ''approved'' else book_status s i)
            else (if references T i then Some ''available'' else book_status s i))"
    by blast
  define T' where "T' = T\<lparr>t_status := st\<rparr>"
  have new: "x \<in> set (transactions s') \<longleftrightarrow> x = T' \<or> (x \<in> set (transactions s) \<and> x \<noteq> T)" for x
    by (auto simp: ts T'_def set_set_transaction_status [OF d(1) mem])
  have T': "t_offeredBookId T' = t_offeredBookId T" "t_status T' = st"
    by (simp_all add: T'_def)
  fix i assume p: "book_status s' i = Some ''pending''"
  from st p bs have was: "book_status s i = Some ''pending''"
    by (auto split: if_splits)
  from st p bs have away: "(st = Approved \<and> i \<noteq> t_requestedBookId T) \<or>
      (st = Rejected \<and> \<not> references T i)"
    by (auto split: if_splits)
  from a was obtain x where x: "x \<in> set (transactions s)"
    "(t_status x = Pending \<and> references x i) \<or> (t_status x = Approved \<and> t_offeredBookId x = Some i)"
    by (auto simp: accounted_def)
  show "\<exists>y\<in>set (transactions s').
          (t_status y = Pending \<and> references y i) \<or>
          (t_status y = Approved \<and> t_offeredBookId y = Some i)"
  proof (cases "x = T")
    case False
    with x have "x \<in> set (transactions s')" by (simp add: new)
    with x(2) show ?thesis by blast
  next
    case True
    with x(2) pen have "references T i" by auto
    with away have "st = Approved" "t_offeredBookId T = Some i"
      by (auto simp: references_def)
    with T' have "t_status T' = Approved \<and> t_offeredBookId T' = Some i" by simp
    moreover have "T' \<in> set (transactions s')" by (simp add: new)
    ultimately show ?thesis by blast
  qed
qed

lemma accounted_burnt: "accounted s \<Longrightarrow> accounted (burnt e s)"
  by (simp add: accounted_def)

lemma reachable_accounted: "reachable s \<Longrightarrow> accounted s"
proof (induction rule: reachable.induct)
  case (reachable_initial s)
  then show ?case by (rule accounted_initial)
next
  case (reachable_create s user body)
  show ?case
  proof (cases "createTransaction s user body")
    case (Inl e)
    with reachable_create.IH show ?thesis by (simp add: after_def accounted_burnt)
  next
    case (Inr p)
    obtain t s' where p: "p = (t, s')" by (cases p)
    from accounted_create [OF reachable_create.IH Inr [unfolded p]] Inr p show ?thesis
      by (simp add: after_def)
  qed
next
  case (reachable_update s user param ubody)
  show ?case
  proof (cases "updateTransaction s user param ubody")
    case (Inl e)
    with reachable_update.IH show ?thesis by (simp add: after_def accounted_burnt)
  next
    case (Inr p)
    obtain t s' where p: "p = (t, s')" by (cases p)
    from accounted_update [OF reachable_consistent [OF reachable_update.hyps]
        reachable_update.IH Inr [unfolded p]] Inr p
    show ?thesis by (simp add: after_def)
  qed
qed

text \<open>
  The two halves of the link between pending books and pending requests that hold in
  every reachable state.
\<close>

lemma pending_request_books_pending:
  assumes "reachable s" "t \<in> set (transactions s)" "t_status t = Pending" "references t i"
  shows "book_status s i = Some ''pending''"
  using consistentD(4) [OF reachable_consistent [OF assms(1)] assms(2-4)] .

lemma pending_book_accounted:
  assumes "reachable s" "book_status s i = Some ''pending''"
  shows "\<exists>t\<in>set (transactions s).
           (t_status t = Pending \<and> references t i) \<or>
           (t_status t = Approved \<and> t_offeredBookId t = Some i)"
  using reachable_accounted [OF assms(1)] assms(2) by (simp add: accounted_def)

text \<open>Both transaction handlers keep a well-formed database well-formed.\<close>

lemma book_ids_create:
  assumes "createTransaction s user body = Inr (t, s')"
  shows "b_id ` set (books s') = b_id ` set (books s)"
  using arg_cong [OF createTransaction_effect(14) [OF assms], of set] by simp

lemma well_formed_create:
  assumes wf: "well_formed s" and run: "createTransaction s user body = Inr (t, s')"
  shows "well_formed s'"
proof -
  note e = createTransaction_effect [OF run]
  note w = well_formedD [OF wf]
  have ids: "b_id ` set (books s') = b_id ` set (books s)" by (rule book_ids_create [OF run])
  have lt: "\<forall>x\<in>set (transactions s). t_id x < transactionSeq s" using w(2) by blast
  have 1: "distinct (map t_id (transactions s'))"
    using w(1) lt e(4) by (fastforce simp: e(1))
  have 2: "\<forall>x\<in>set (transactions s'). t_id x < transactionSeq s'"
    using lt e(4) by (fastforce simp: e(1) e(2))
  have 3: "\<forall>b\<in>set (books s'). 0 < b_id b"
  proof
    fix b assume "b \<in> set (books s')"
    then have "b_id b \<in> b_id ` set (books s)" using ids by blast
    with w(3) show "0 < b_id b" by auto
  qed
  have ex: "i \<in> b_id ` set (books s)" if "references t i" for i
    using e(10) [OF that] by (auto simp: book_status_def dest!: select_book_Some)
  have tnew: "t_requestedBookId t \<in> b_id ` set (books s) \<and>
      (case t_offeredBookId t of None \<Rightarrow> True
       | Some j \<Rightarrow> j \<in> b_id ` set (books s) \<and> j \<noteq> t_requestedBookId t)"
    using ex e(9) by (auto simp: references_def split: option.splits)
  have 4: "\<forall>x\<in>set (transactions s'). t_requestedBookId x \<in> b_id ` set (books s') \<and>
      (case t_offeredBookId x of None \<Rightarrow> True
       | Some j \<Rightarrow> j \<in> b_id ` set (books s') \<and> j \<noteq> t_requestedBookId x)"
    unfolding ids using wf tnew by (auto simp: e(1) well_formed_def list_all_iff)
  from 1 2 3 4 show ?thesis
    by (simp add: well_formed_def list_all_iff)
qed


lemma keys_set_transaction_status:
  "map (\<lambda>t. (t_id t, t_requestedBookId t, t_offeredBookId t)) (set_transaction_status ts i v) =
   map (\<lambda>t. (t_id t, t_requestedBookId t, t_offeredBookId t)) ts"
  by (simp add: set_transaction_status_def)

lemma keys_reject_rows:
  "map (\<lambda>t. (t_id t, t_requestedBookId t, t_offeredBookId t)) (reject_rows R ts) =
   map (\<lambda>t. (t_id t, t_requestedBookId t, t_offeredBookId t)) ts"
  by (simp add: reject_rows_def)

lemma ids_release_rows: "map b_id (release_rows J bs) = map b_id bs"
  by (simp add: release_rows_def)

lemma updateTransaction_frame:
  assumes "updateTransaction s user param body = Inr (r, s')"
  shows "map (\<lambda>t. (t_id t, t_requestedBookId t, t_offeredBookId t)) (transactions s') =
         map (\<lambda>t. (t_id t, t_requestedBookId t, t_offeredBookId t)) (transactions s)"
    and "map b_id (books s') = map b_id (books s)"
    and "transactionSeq s' = transactionSeq s"
proof -
  from updateTransaction_Inr [OF assms] obtain tid st T where
    st: "st = Approved \<or> st = Rejected" and w: "resolve_writes s tid T st = (r, s')"
    by blast
  from st w
  show "map (\<lambda>t. (t_id t, t_requestedBookId t, t_offeredBookId t)) (transactions s') =
         map (\<lambda>t. (t_id t, t_requestedBookId t, t_offeredBookId t)) (transactions s)"
    by (auto simp: resolve_writes_Approved resolve_writes_Rejected keys_reject_rows
        keys_set_transaction_status)
  from st w show "map b_id (books s') = map b_id (books s)"
    by (auto simp: resolve_writes_Approved resolve_writes_Rejected ids_release_rows)
  from st w show "transactionSeq s' = transactionSeq s"
    by (auto simp: resolve_writes_Approved resolve_writes_Rejected)
qed

lemma well_formed_update:
  assumes wf: "well_formed s" and run: "updateTransaction s user param body = Inr (r, s')"
  shows "well_formed s'"
proof -
  note f = updateTransaction_frame [OF run]
  note w = well_formedD [OF wf]
  have ids: "b_id ` set (books s') = b_id ` set (books s)"
    using arg_cong [OF f(2), of set] by simp
  have tids: "map t_id (transactions s') = map t_id (transactions s)"
    using arg_cong [OF f(1), of "map fst"] by (simp add: o_def)
  have same: "\<exists>y\<in>set (transactions s). t_id y = t_id x \<and>
      t_requestedBookId y = t_requestedBookId x \<and> t_offeredBookId y = t_offeredBookId x"
    if "x \<in> set (transactions s')" for x
  proof -
    from that have "(t_id x, t_requestedBookId x, t_offeredBookId x) \<in>
      set (map (\<lambda>t. (t_id t, t_requestedBookId t, t_offeredBookId t)) (transactions s'))"
      by force
    then have "(t_id x, t_requestedBookId x, t_offeredBookId x) \<in>
      set (map (\<lambda>t. (t_id t, t_requestedBookId t, t_offeredBookId t)) (transactions s))"
      by (simp only: f(1))
    then show ?thesis by auto
  qed
  have 1: "distinct (map t_id (transactions s'))"
    using w(1) by (simp add: tids)
  have 2: "\<forall>x\<in>set (transactions s'). t_id x < transactionSeq s'"
  proof
    fix x assume "x \<in> set (transactions s')"
    from same [OF this] obtain y where "y \<in> set (transactions s)" "t_id y = t_id x" by blast
    with w(2) [of y] show "t_id x < transactionSeq s'" by (simp add: f(3))
  qed
  have 3: "\<forall>b\<in>set (books s'). 0 < b_id b"
  proof
    fix b assume "b \<in> set (books s')"
    then have "b_id b \<in> b_id ` set (books s)" using ids by blast
    with w(3) show "0 < b_id b" by auto
  qed
  have 4: "\<forall>x\<in>set (transactions s'). t_requestedBookId x \<in> b_id ` set (books s') \<and>
      (case t_offeredBookId x of None \<Rightarrow> True
       | Some j \<Rightarrow> j \<in> b_id ` set (books s') \<and> j \<noteq> t_requestedBookId x)"
    unfolding ids
  proof
    fix x assume "x \<in> set (transactions s')"
    from same [OF this] obtain y where y: "y \<in> set (transactions s)"
      "t_requestedBookId y = t_requestedBookId x" "t_offeredBookId y = t_offeredBookId x"
      by blast
    from wf y(1) have "t_requestedBookId y \<in> b_id ` set (books s) \<and>
      (case t_offeredBookId y of None \<Rightarrow> True
       | Some j \<Rightarrow> j \<in> b_id ` set (books s) \<and> j \<noteq> t_requestedBookId y)"
      by (simp add: well_formed_def list_all_iff)
    then show "t_requestedBookId x \<in> b_id ` set (books s) \<and>
      (case t_offeredBookId x of None \<Rightarrow> True
       | Some j \<Rightarrow> j \<in> b_id ` set (books s) \<and> j \<noteq> t_requestedBookId x)"
      by (simp only: y(2,3))
  qed
  from 1 2 3 4 show ?thesis
    by (simp add: well_formed_def list_all_iff)
qed

lemma well_formed_burnt: "well_formed s \<Longrightarrow> well_formed (burnt e s)"
proof -
  assume wf: "well_formed s"
  have "\<forall>t\<in>set (transactions s). t_id t < transactionSeq s"
    using well_formedD(2) [OF wf] by blast
  then have "list_all (\<lambda>t. t_id t < transactionSeq s + 1) (transactions s)"
    by (fastforce simp: list_all_iff)
  with wf have bump: "well_formed (s\<lparr>transactionSeq := transactionSeq s + 1\<rparr>)"
    by (simp add: well_formed_def cong: option.case_cong)
  have "well_formed (s\<lparr>bookSeq := bookSeq s + 1\<rparr>)"
    using wf by (simp add: well_formed_def cong: option.case_cong)
  with wf bump show ?thesis by (cases e) simp_all
qed

lemma well_formed_initial:
  "initial s \<Longrightarrow> list_all (\<lambda>b. 0 < b_id b) (books s) \<Longrightarrow> well_formed s"
  by (simp add: initial_def well_formed_def)

section \<open>Approving a request\<close>

text \<open>
  Claim C2. In a well-formed database, when transaction \<open>T\<close> (found with its requested
  book \<open>B\<close>) is pending and the caller \<open>u\<close> owns \<open>B\<close>, \<open>updateTransaction\<close> with status
  \<open>approved\<close> succeeds; afterwards \<open>T\<close> is approved, the requested book is \<open>approved\<close>,
  every other transaction for that book that was pending is rejected and its offered book
  is \<open>available\<close>, and every other transaction for that book that was not pending is
  the row it was.
\<close>

theorem approve_cascade:
  assumes wf: "well_formed s"
    and T: "transactionWithBook s tid = Some (T, B)" "t_status T = Pending"
    and auth: "u \<noteq> 0" "b_ownerId B = u"
    and body: "tid \<noteq> 0" "updateTransactionSchema tid body = Some Approved"
  shows "\<exists>r s'. updateTransaction s (Some u) (Some tid) body = Inr (r, s') \<and>
      select_transaction (transactions s') tid = Some (T\<lparr>t_status := Approved\<rparr>) \<and>
      book_status s' (t_requestedBookId T) = Some ''approved'' \<and>
      (\<forall>t\<in>set (transactions s). t_id t \<noteq> tid \<and> t_requestedBookId t = t_requestedBookId T \<longrightarrow>
         (if t_status t = Pending
          then select_transaction (transactions s') (t_id t) = Some (t\<lparr>t_status := Rejected\<rparr>) \<and>
               (\<forall>j. t_offeredBookId t = Some j \<longrightarrow> book_status s' j = Some ''available'')
          else select_transaction (transactions s') (t_id t) = Some t))"
proof -
  define R where "R = rejected_ids tid (snapshot s tid T)"
  define J where "J = released_books tid (snapshot s tid T)"
  define ts1 where "ts1 = set_transaction_status (transactions s) tid Approved"
  define s' where "s' = s\<lparr>transactions := reject_rows R ts1,
    books := set_book_status (release_rows J (books s)) (t_requestedBookId T) ''approved''\<rparr>"
  from T have selT: "select_transaction (transactions s) tid = Some T"
    and selB: "select_book (books s) (t_requestedBookId T) = Some B"
    by (simp_all add: transactionWithBook_Some)
  have run: "updateTransaction s (Some u) (Some tid) body = Inr (T\<lparr>t_status := Approved\<rparr>, s')"
    using T auth body
    by (simp add: updateTransaction_def resolve_writes_Approved s'_def R_def J_def ts1_def)
  have target: "select_transaction (transactions s') tid = Some (T\<lparr>t_status := Approved\<rparr>)"
    using selT rejected_ids_not_target [of tid "snapshot s tid T"]
    by (simp add: s'_def select_transaction_reject_rows select_transaction_set_status R_def ts1_def)
  have book: "book_status s' (t_requestedBookId T) = Some ''approved''"
    using selB
    by (simp add: s'_def select_book_set_book_status select_book_release_rows)
  have others: "if t_status t = Pending
          then select_transaction (transactions s') (t_id t) = Some (t\<lparr>t_status := Rejected\<rparr>) \<and>
               (\<forall>j. t_offeredBookId t = Some j \<longrightarrow> book_status s' j = Some ''available'')
          else select_transaction (transactions s') (t_id t) = Some t"
    if t: "t \<in> set (transactions s)" "t_id t \<noteq> tid" "t_requestedBookId t = t_requestedBookId T"
    for t
  proof -
    have d: "distinct (map t_id (transactions s))" using wf by (rule well_formedD)
    have sel: "select_transaction (transactions s) (t_id t) = Some t"
      using d t(1) by (rule select_transaction_distinct)
    have inR: "t_id t \<in> R \<longleftrightarrow> t_status t = Pending"
      using in_rejected_ids [OF d t(1) t(2), of T] t(3) by (simp add: R_def)
    show ?thesis
    proof (cases "t_status t = Pending")
      case False
      with inR sel t(2) show ?thesis
        by (simp add: s'_def select_transaction_reject_rows select_transaction_set_status ts1_def)
    next
      case True
      have row: "select_transaction (transactions s') (t_id t) = Some (t\<lparr>t_status := Rejected\<rparr>)"
        using True inR sel t(2)
        by (simp add: s'_def select_transaction_reject_rows select_transaction_set_status ts1_def)
      have "book_status s' j = Some ''available''" if j: "t_offeredBookId t = Some j" for j
      proof -
        from well_formedD(5) [OF wf t(1) j] obtain b where
          b: "select_book (books s) j = Some b" and ne: "j \<noteq> t_requestedBookId t" "0 < j"
          by auto
        have "j \<in> J"
          unfolding J_def in_released_books using t True j ne by auto
        with b ne t(3) show ?thesis
          by (simp add: s'_def select_book_set_book_status select_book_release_rows)
      qed
      with row True show ?thesis by simp
    qed
  qed
  from run target book others show ?thesis by blast
qed

theorem approve_cascade_witness:
  "well_formed contended \<and>
   transactionWithBook contended 1 =
     Some (request 1 2 1 (Some 2) Pending, bookA\<lparr>b_status := ''pending''\<rparr>) \<and>
   (\<exists>r s'. updateTransaction contended (Some 1) (Some 1) (decide Approved) = Inr (r, s') \<and>
      select_transaction (transactions s') 1 = Some (request 1 2 1 (Some 2) Approved) \<and>
      book_status s' 1 = Some ''approved'' \<and>
      select_transaction (transactions s') 2 = Some (request 2 3 1 (Some 3) Rejected) \<and>
      book_status s' 3 = Some ''available'' \<and>
      select_transaction (transactions s') 3 = Some (request 3 3 1 (Some 3) Rejected))"
proof -
  let ?T = "request 1 2 1 (Some 2) Pending"
  let ?B = "bookA\<lparr>b_status := ''pending''\<rparr>"
  have wf: "well_formed contended"
    by (simp add: well_formed_def example_defs)
  have T: "transactionWithBook contended 1 = Some (?T, ?B)"
    by (simp add: transactionWithBook_def select_transaction_def select_book_def example_defs)
  have p: "t_status ?T = Pending" and u: "(1::int) \<noteq> 0" "b_ownerId ?B = 1"
    and b: "updateTransactionSchema 1 (decide Approved) = Some Approved"
    by (simp_all add: example_defs updateTransactionSchema_def safe_positive_def)
  from approve_cascade [OF wf T p u u(1) b] obtain r s' where
    run: "updateTransaction contended (Some 1) (Some 1) (decide Approved) = Inr (r, s')" and
    tgt: "select_transaction (transactions s') 1 = Some (?T\<lparr>t_status := Approved\<rparr>)" and
    bk: "book_status s' (t_requestedBookId ?T) = Some ''approved''" and
    oth: "\<forall>t\<in>set (transactions contended).
           t_id t \<noteq> 1 \<and> t_requestedBookId t = t_requestedBookId ?T \<longrightarrow>
           (if t_status t = Pending
            then select_transaction (transactions s') (t_id t) = Some (t\<lparr>t_status := Rejected\<rparr>) \<and>
                 (\<forall>j. t_offeredBookId t = Some j \<longrightarrow> book_status s' j = Some ''available'')
            else select_transaction (transactions s') (t_id t) = Some t)"
    by blast
  from oth have "select_transaction (transactions s') 2 = Some (request 2 3 1 (Some 3) Rejected)"
    "book_status s' 3 = Some ''available''"
    "select_transaction (transactions s') 3 = Some (request 3 3 1 (Some 3) Rejected)"
    by (simp_all add: example_defs)
  with wf T run tgt bk show ?thesis
    by (auto simp: request_def)
qed

section \<open>Rejecting a request\<close>

text \<open>
  Claim C6. In a well-formed database, when transaction \<open>T\<close> (found with its requested
  book \<open>B\<close>) is pending and the caller \<open>u\<close> owns \<open>B\<close>, \<open>updateTransaction\<close> with status
  \<open>rejected\<close> succeeds; afterwards \<open>T\<close> is rejected, the requested book is \<open>available\<close>
  and so is the offered book of \<open>T\<close>, when it has one.
\<close>

theorem reject_releases:
  assumes wf: "well_formed s"
    and T: "transactionWithBook s tid = Some (T, B)" "t_status T = Pending"
    and auth: "u \<noteq> 0" "b_ownerId B = u"
    and body: "tid \<noteq> 0" "updateTransactionSchema tid body = Some Rejected"
  shows "\<exists>r s'. updateTransaction s (Some u) (Some tid) body = Inr (r, s') \<and>
      select_transaction (transactions s') tid = Some (T\<lparr>t_status := Rejected\<rparr>) \<and>
      book_status s' (t_requestedBookId T) = Some ''available'' \<and>
      (\<forall>j. t_offeredBookId T = Some j \<longrightarrow> book_status s' j = Some ''available'')"
proof -
  define bs1 where "bs1 = (if truthy (t_offeredBookId T)
     then set_book_status (books s) (the (t_offeredBookId T)) ''available'' else books s)"
  define s' where "s' = s\<lparr>transactions := set_transaction_status (transactions s) tid Rejected,
     books := set_book_status bs1 (t_requestedBookId T) ''available''\<rparr>"
  from T have selT: "select_transaction (transactions s) tid = Some T"
    and selB: "select_book (books s) (t_requestedBookId T) = Some B"
    by (simp_all add: transactionWithBook_Some)
  from selT have mem: "T \<in> set (transactions s)"
    by (simp add: select_transaction_Some)
  have run: "updateTransaction s (Some u) (Some tid) body = Inr (T\<lparr>t_status := Rejected\<rparr>, s')"
    using T auth body
    by (simp add: updateTransaction_def resolve_writes_Rejected s'_def bs1_def)
  have target: "select_transaction (transactions s') tid = Some (T\<lparr>t_status := Rejected\<rparr>)"
    using selT by (simp add: s'_def select_transaction_set_status)
  have book: "book_status s' (t_requestedBookId T) = Some ''available''"
    using selB by (auto simp: s'_def bs1_def select_book_set_book_status)
  have offered: "book_status s' j = Some ''available''" if j: "t_offeredBookId T = Some j" for j
  proof -
    from well_formedD(5) [OF wf mem j] obtain b where
      "select_book (books s) j = Some b" "0 < j"
      by auto
    with j selB show ?thesis
      by (auto simp: s'_def bs1_def select_book_set_book_status)
  qed
  from run target book offered show ?thesis by blast
qed

theorem reject_releases_witness:
  "well_formed exchange_requested \<and>
   transactionWithBook exchange_requested 1 =
     Some (request 1 2 1 (Some 2) Pending, bookA\<lparr>b_status := ''pending''\<rparr>) \<and>
   (\<exists>r s'. updateTransaction exchange_requested (Some 1) (Some 1) (decide Rejected) = Inr (r, s') \<and>
      select_transaction (transactions s') 1 = Some (request 1 2 1 (Some 2) Rejected) \<and>
      book_status s' 1 = Some ''available'' \<and>
      book_status s' 2 = Some ''available'')"
proof -
  let ?T = "request 1 2 1 (Some 2) Pending"
  let ?B = "bookA\<lparr>b_status := ''pending''\<rparr>"
  have wf: "well_formed exchange_requested"
    by (simp add: well_formed_def example_defs)
  have T: "transactionWithBook exchange_requested 1 = Some (?T, ?B)"
    by (simp add: transactionWithBook_def select_transaction_def select_book_def example_defs)
  have p: "t_status ?T = Pending" and u: "(1::int) \<noteq> 0" "b_ownerId ?B = 1"
    and b: "updateTransactionSchema 1 (decide Rejected) = Some Rejected"
    by (simp_all add: example_defs updateTransactionSchema_def safe_positive_def)
  from reject_releases [OF wf T p u u(1) b] wf T show ?thesis
    by (simp add: request_def)
qed

section \<open>The order of the checks of a request\<close>

text \<open>
  Claim C4 gives the order a, b, c, d, e, f, g. \<open>createTransaction\<close> checks the offered
  book before it checks that the requester is not the owner: on \<open>shelf\<close>, user 1 asking
  for the own book 1 and offering a book that does not exist is answered
  "Offered book not found", not "You cannot request your own book".
\<close>

theorem validation_order_counterexample:
  "map_option b_ownerId (select_book (books shelf) 1) = Some 1 \<and>
   \<not> rule_d shelf 1 (ask 1 1 Exchange (Some 9)) \<and>
   \<not> rule_f shelf 1 (ask 1 1 Exchange (Some 9)) \<and>
   createTransaction shelf (Some 1) (ask 1 1 Exchange (Some 9)) = Inl OfferedBookNotFound \<and>
   createTransaction shelf (Some 1) (ask 1 1 Exchange (Some 9)) \<noteq> Inl OwnBook"
  by (simp add: create_defs rule_defs example_defs)

text \<open>
  Claim C4, amended. For an authenticated caller and a body that passes the schema,
  \<open>createTransaction\<close> applies the rules in the order a, b, c, f, d, e, g and answers with
  the error of the first rule that fails, the parts of f in the order: offered book
  exists, is the requester's, is available, is not the requested book. Where rule a or the
  first part of f fails for an id outside the range of the integer column, the lookup
  itself fails and the answer is 500 in place of "not found"; the same holds of the
  lookup of rule g for the id of the caller. A requester who owns the requested book gets
  "You cannot request your own book" when a, b, c and f hold. When every rule holds the
  row is inserted, unless the database refuses it for a foreign key (500).
\<close>

theorem validation_order:
  assumes "truthy user" "createTransactionSchema body"
  shows "(let r = createTransaction s user body; u = the user in
     (\<not> rule_a s body \<and> int4 (requestedBookId body) \<longrightarrow> r = Inl BookNotFound) \<and>
     (\<not> rule_a s body \<and> \<not> int4 (requestedBookId body) \<longrightarrow> r = Inl InternalServerError) \<and>
     (rule_a s body \<and> \<not> rule_b s body \<longrightarrow> r = Inl BookNotAvailable) \<and>
     (rule_a s body \<and> rule_b s body \<and> \<not> rule_c s body \<longrightarrow> r = Inl InvalidOwnerId) \<and>
     (rule_a s body \<and> rule_b s body \<and> rule_c s body \<and> type body = Exchange \<longrightarrow>
        (\<not> rule_f_exists s body \<and> int4 (the (offeredBookId body)) \<longrightarrow>
           r = Inl OfferedBookNotFound) \<and>
        (\<not> rule_f_exists s body \<and> \<not> int4 (the (offeredBookId body)) \<longrightarrow>
           r = Inl InternalServerError) \<and>
        (rule_f_exists s body \<and> \<not> rule_f_owned s u body \<longrightarrow> r = Inl OfferNotOwnBook) \<and>
        (rule_f_exists s body \<and> rule_f_owned s u body \<and> \<not> rule_f_available s body \<longrightarrow>
           r = Inl OfferedBookNotAvailable) \<and>
        (rule_f_exists s body \<and> rule_f_owned s u body \<and> rule_f_available s body \<and>
           \<not> rule_f_differs body \<longrightarrow> r = Inl SameBook)) \<and>
     (rule_a s body \<and> rule_b s body \<and> rule_c s body \<and> rule_f s u body \<longrightarrow>
        (\<not> rule_d s u body \<longrightarrow> r = Inl OwnBook) \<and>
        (rule_d s u body \<and> \<not> rule_e s body \<longrightarrow> r = Inl TypeMismatch) \<and>
        (rule_d s u body \<and> rule_e s body \<and> \<not> rule_g s u body \<longrightarrow> r = Inl DuplicatePending) \<and>
        (rule_d s u body \<and> rule_e s body \<and> rule_g s u body \<and> \<not> int4 u \<longrightarrow>
           r = Inl InternalServerError) \<and>
        (rule_d s u body \<and> rule_e s body \<and> rule_g s u body \<and> int4 u \<longrightarrow>
           r = (if u \<in> set (users s) \<and> ownerId body \<in> set (users s)
                then Inr (insert_transaction s u body) else Inl TransactionInsertRefused))))"
proof -
  obtain u where u: "user = Some u" "u \<noteq> 0"
    using assms(1) by (cases user) auto
  have g: "existingTransaction s u (requestedBookId body) = (\<not> rule_g s u body)"
    by (auto simp: existingTransaction_def rule_g_def list_ex_iff filter_empty_conv)
  show ?thesis
  proof (cases "select_book (books s) (requestedBookId body)")
    case None
    with u assms(2) show ?thesis
      by (simp add: createTransaction_def rule_defs book_status_def missing_def Let_def)
  next
    case (Some book)
    show ?thesis
    proof (cases "type body")
      case Free
      with Some u assms(2) g show ?thesis
        by (auto simp: createTransaction_def exchange_checks_def rule_defs book_status_def Let_def)
    next
      case Exchange
      with assms(2) obtain j where j: "offeredBookId body = Some j" "j \<noteq> 0"
        by (cases "offeredBookId body") (auto simp: createTransactionSchema_def)
      show ?thesis
      proof (cases "select_book (books s) j")
        case None
        with Some Exchange j u assms(2) show ?thesis
          by (auto simp: createTransaction_def exchange_checks_def rule_defs book_status_def
              missing_def Let_def)
      next
        case ob: (Some offeredBook)
        with Some Exchange j u assms(2) g show ?thesis
          by (auto simp: createTransaction_def exchange_checks_def rule_defs book_status_def Let_def)
      qed
    qed
  qed
qed

theorem validation_order_witness:
  "truthy (Some 1) \<and> createTransactionSchema (ask 1 1 Exchange (Some 3)) \<and>
   rule_a shelf (ask 1 1 Exchange (Some 3)) \<and> rule_b shelf (ask 1 1 Exchange (Some 3)) \<and>
   rule_c shelf (ask 1 1 Exchange (Some 3)) \<and> \<not> rule_d shelf 1 (ask 1 1 Exchange (Some 3)) \<and>
   rule_f_exists shelf (ask 1 1 Exchange (Some 3)) \<and>
   \<not> rule_f_owned shelf 1 (ask 1 1 Exchange (Some 3)) \<and>
   createTransaction shelf (Some 1) (ask 1 1 Exchange (Some 3)) = Inl OfferNotOwnBook \<and>
   createTransactionSchema (ask 2147483648 1 Free None) \<and>
   \<not> rule_a shelf (ask 2147483648 1 Free None) \<and> \<not> int4 2147483648 \<and>
   createTransaction shelf (Some 1) (ask 2147483648 1 Free None) = Inl InternalServerError"
proof -
  have h: "truthy (Some 1)" "createTransactionSchema (ask 1 1 Exchange (Some 3))"
    by (simp_all add: createTransactionSchema_def safe_positive_def example_defs)
  have r: "rule_a shelf (ask 1 1 Exchange (Some 3))" "rule_b shelf (ask 1 1 Exchange (Some 3))"
    "rule_c shelf (ask 1 1 Exchange (Some 3))" "\<not> rule_d shelf 1 (ask 1 1 Exchange (Some 3))"
    "rule_f_exists shelf (ask 1 1 Exchange (Some 3))"
    "\<not> rule_f_owned shelf 1 (ask 1 1 Exchange (Some 3))"
    "type (ask 1 1 Exchange (Some 3)) = Exchange"
    by (simp_all add: rule_defs book_status_def select_book_def example_defs)
  have h': "createTransactionSchema (ask 2147483648 1 Free None)"
    by (simp add: createTransactionSchema_def safe_positive_def example_defs)
  have r': "\<not> rule_a shelf (ask 2147483648 1 Free None)" "\<not> int4 2147483648"
    "requestedBookId (ask 2147483648 1 Free None) = 2147483648"
    by (simp_all add: rule_defs select_book_def int4_def example_defs)
  from validation_order [OF h, of shelf] r
  have 1: "createTransaction shelf (Some 1) (ask 1 1 Exchange (Some 3)) = Inl OfferNotOwnBook"
    by (simp add: Let_def)
  from validation_order [OF h(1) h', of shelf] r'
  have 2: "createTransaction shelf (Some 1) (ask 2147483648 1 Free None) = Inl InternalServerError"
    by (simp add: Let_def)
  from 1 2 h h' r r'(1,2) show ?thesis by simp
qed

section \<open>Offering the requested book\<close>

text \<open>
  Claim C9 says that a request of type Exchange whose offered book is the requested book
  always fails validation. It always fails, but not always as a validation error: the
  check that the offered book is the requester's comes before the check that it differs
  from the requested book, so on \<open>shelf\<close> user 2, asking user 1 for book 1 in exchange for
  book 1, is answered 403 "You can only offer your own books"; asking for a book that
  does not exist is answered 404.
\<close>

theorem offering_the_requested_book_counterexample:
  "createTransaction shelf (Some 2) (ask 1 1 Exchange (Some 1)) = Inl OfferNotOwnBook \<and>
   createTransaction shelf (Some 2) (ask 1 1 Exchange (Some 1)) \<noteq> Inl SameBook \<and>
   http_status OfferNotOwnBook = 403 \<and>
   createTransaction shelf (Some 2) (ask 9 1 Exchange (Some 9)) = Inl BookNotFound \<and>
   http_status BookNotFound = 404"
  by (simp add: create_defs example_defs)

text \<open>
  Claim C9, amended. A request of type Exchange whose offered book is the requested book
  is answered with an error in every database, for every caller and whatever the other
  fields, and nothing is written. For an authenticated caller and a body that passes the
  schema the error is that of the first check that fails: "Book not found" (500 for an id
  outside the range of the integer column), "Book is not available for request", "Invalid
  owner ID for this book", then 403 "You can only offer your own books" for a requester
  who does not own the book; the validation error "Cannot offer the same book you're
  requesting" is the answer exactly when the requester owns the requested book and the
  earlier checks pass.
\<close>

theorem offering_the_requested_book_fails:
  "(let body = \<lparr>requestedBookId = i, ownerId = owner, type = Exchange, offeredBookId = Some i\<rparr>;
        r = createTransaction s user body
    in (\<exists>e. r = Inl e) \<and> after s r = s \<and>
       (\<not> truthy user \<longrightarrow> r = Inl AuthenticationRequired) \<and>
       (truthy user \<and> \<not> createTransactionSchema body \<longrightarrow> r = Inl ValidationFailed) \<and>
       (truthy user \<and> createTransactionSchema body \<longrightarrow>
          (\<not> rule_a s body \<and> int4 i \<longrightarrow> r = Inl BookNotFound) \<and>
          (\<not> rule_a s body \<and> \<not> int4 i \<longrightarrow> r = Inl InternalServerError) \<and>
          (rule_a s body \<and> \<not> rule_b s body \<longrightarrow> r = Inl BookNotAvailable) \<and>
          (rule_a s body \<and> rule_b s body \<and> \<not> rule_c s body \<longrightarrow> r = Inl InvalidOwnerId) \<and>
          (rule_a s body \<and> rule_b s body \<and> rule_c s body \<and> rule_d s (the user) body \<longrightarrow>
             r = Inl OfferNotOwnBook) \<and>
          (rule_a s body \<and> rule_b s body \<and> rule_c s body \<and> \<not> rule_d s (the user) body \<longrightarrow>
             r = Inl SameBook)))"
proof -
  define body where
    "body = \<lparr>requestedBookId = i, ownerId = owner, type = Exchange, offeredBookId = Some i\<rparr>"
  have b: "requestedBookId body = i" "ownerId body = owner" "type body = Exchange"
    "offeredBookId body = Some i"
    by (simp_all add: body_def)
  define r where "r = createTransaction s user body"
  have 1: "\<not> truthy user \<longrightarrow> r = Inl AuthenticationRequired"
    by (simp add: r_def createTransaction_def)
  have 2: "truthy user \<and> \<not> createTransactionSchema body \<longrightarrow> r = Inl ValidationFailed"
    by (simp add: r_def createTransaction_def)
  have 3: "(\<not> rule_a s body \<and> int4 i \<longrightarrow> r = Inl BookNotFound) \<and>
          (\<not> rule_a s body \<and> \<not> int4 i \<longrightarrow> r = Inl InternalServerError) \<and>
          (rule_a s body \<and> \<not> rule_b s body \<longrightarrow> r = Inl BookNotAvailable) \<and>
          (rule_a s body \<and> rule_b s body \<and> \<not> rule_c s body \<longrightarrow> r = Inl InvalidOwnerId) \<and>
          (rule_a s body \<and> rule_b s body \<and> rule_c s body \<and> rule_d s (the user) body \<longrightarrow>
             r = Inl OfferNotOwnBook) \<and>
          (rule_a s body \<and> rule_b s body \<and> rule_c s body \<and> \<not> rule_d s (the user) body \<longrightarrow>
             r = Inl SameBook)"
    if ok: "truthy user" "createTransactionSchema body"
  proof -
    from ok(2) b have i: "i \<noteq> 0"
      by (auto simp: createTransactionSchema_def safe_positive_def)
    show ?thesis
    proof (cases "select_book (books s) i")
      case None
      with ok b show ?thesis
        by (simp add: r_def createTransaction_def rule_defs book_status_def missing_def)
    next
      case (Some book)
      with ok b i show ?thesis
        by (auto simp: r_def createTransaction_def exchange_checks_def rule_defs book_status_def)
    qed
  qed
  have 4: "\<exists>e. r = Inl e \<and> e \<noteq> TransactionInsertRefused \<and> e \<noteq> BookInsertRefused"
  proof (cases "truthy user \<and> createTransactionSchema body")
    case False
    with 1 2 show ?thesis by auto
  next
    case True
    with 3 show ?thesis
      by (cases "rule_a s body"; cases "rule_b s body"; cases "rule_c s body";
          cases "rule_d s (the user) body"; cases "int4 i") auto
  qed
  then have 5: "after s r = s" by (auto simp: after_def burnt_other)
  from 1 2 3 4 5 show ?thesis
    unfolding Let_def body_def [symmetric] r_def [symmetric] by blast
qed

theorem offering_the_requested_book_fails_witness:
  "truthy (Some 1) \<and> createTransactionSchema (ask 1 1 Exchange (Some 1)) \<and>
   rule_a shelf (ask 1 1 Exchange (Some 1)) \<and> rule_b shelf (ask 1 1 Exchange (Some 1)) \<and>
   rule_c shelf (ask 1 1 Exchange (Some 1)) \<and> \<not> rule_d shelf 1 (ask 1 1 Exchange (Some 1)) \<and>
   createTransaction shelf (Some 1) (ask 1 1 Exchange (Some 1)) = Inl SameBook \<and>
   after shelf (createTransaction shelf (Some 1) (ask 1 1 Exchange (Some 1))) = shelf"
proof -
  have h: "truthy (Some 1)" "createTransactionSchema (ask 1 1 Exchange (Some 1))"
    "rule_a shelf (ask 1 1 Exchange (Some 1))" "rule_b shelf (ask 1 1 Exchange (Some 1))"
    "rule_c shelf (ask 1 1 Exchange (Some 1))" "\<not> rule_d shelf 1 (ask 1 1 Exchange (Some 1))"
    by (simp_all add: createTransactionSchema_def safe_positive_def rule_defs book_status_def
        select_book_def example_defs)
  from offering_the_requested_book_fails [of 1 1 shelf "Some 1"] h show ?thesis
    by (simp add: Let_def ask_def after_def)
qed

section \<open>Resolved requests\<close>




section \<open>The book handlers and the lending status\<close>

text \<open>
  Claim C10. \<open>updateBook\<close> leaves the \<open>status\<close> of every book as it was, whatever the
  body holds: the schema has no \<open>status\<close> key and the parsed data carries none. Of the
  other handlers that write \<open>books\<close>, \<open>createBook\<close> leaves the status of the books there
  are, and every book that \<open>deleteBook\<close> leaves has the status it had; so only
  \<open>createTransaction\<close> and \<open>updateTransaction\<close> change the status of a book.
\<close>

theorem book_handlers_keep_status:
  "book_status (after s (updateBook is_url s user param body)) i = book_status s i \<and>
   (book_status s i = Some v \<longrightarrow> book_status (after s (createBook is_url s user body)) i = Some v) \<and>
   (book_status (after s (deleteBook s user param)) i = Some v \<longrightarrow> book_status s i = Some v)"
proof (intro conjI)
  show "book_status (after s (updateBook is_url s user param body)) i = book_status s i"
    using updateBook_after [of s is_url user param body]
    by (auto simp: book_status_def select_book_set_columns status_set_columns)
  show "book_status s i = Some v \<longrightarrow>
        book_status (after s (createBook is_url s user body)) i = Some v"
    using createBook_after [of s is_url user body]
    by (auto simp: book_status_def select_book_append)
  show "book_status (after s (deleteBook s user param)) i = Some v \<longrightarrow> book_status s i = Some v"
    using deleteBook_after [of s user param]
    by (auto simp: book_status_def select_book_filter split: if_splits)
qed

theorem book_handlers_keep_status_witness:
  "updateBook any_url exchange_requested (Some 1) (Some 1) patch =
     Inr (bookA\<lparr>b_status := ''pending'', b_title := ''Matilda (signed)''\<rparr>,
          exchange_requested\<lparr>books :=
            [bookA\<lparr>b_status := ''pending'', b_title := ''Matilda (signed)''\<rparr>,
             bookB\<lparr>b_status := ''pending''\<rparr>, bookC]\<rparr>) \<and>
   book_status (after exchange_requested
     (updateBook any_url exchange_requested (Some 1) (Some 1) patch)) 1 = Some ''pending''"
proof -
  have "book_status exchange_requested 1 = Some ''pending''"
    by (simp add: book_status_def select_book_def example_defs)
  moreover have "updateBook any_url exchange_requested (Some 1) (Some 1) patch =
     Inr (bookA\<lparr>b_status := ''pending'', b_title := ''Matilda (signed)''\<rparr>,
          exchange_requested\<lparr>books :=
            [bookA\<lparr>b_status := ''pending'', b_title := ''Matilda (signed)''\<rparr>,
             bookB\<lparr>b_status := ''pending''\<rparr>, bookC]\<rparr>)"
    by (simp add: updateBook_def bookSchema_partial_def refused_def set_columns_def
        select_book_def patch_def example_defs)
  ultimately show ?thesis
    using book_handlers_keep_status [of exchange_requested any_url "Some 1" "Some 1" patch 1]
    by simp
qed

section \<open>Invariants of the reachable states\<close>

text \<open>
  Claim C5. In every state that \<open>createTransaction\<close> and \<open>updateTransaction\<close> reach from
  a database without transactions whose books are all \<open>available\<close>, at most one
  transaction with a given requested book is approved.
\<close>

theorem one_approved_per_book:
  assumes "reachable s"
  shows "length (filter (\<lambda>t. t_requestedBookId t = i \<and> t_status t = Approved) (transactions s)) \<le> 1"
proof -
  note d = consistentD [OF reachable_consistent [OF assms]]
  from d(1) have "distinct (transactions s)" by (simp add: distinct_map)
  moreover from d(7) have "\<forall>x\<in>set (transactions s). \<forall>y\<in>set (transactions s).
      (t_requestedBookId x = i \<and> t_status x = Approved) \<and>
      (t_requestedBookId y = i \<and> t_status y = Approved) \<longrightarrow> x = y"
    by auto
  ultimately show ?thesis by (rule filter_at_most_one)
qed

theorem one_approved_per_book_witness:
  "reachable exchange_approved \<and>
   length (filter (\<lambda>t. t_requestedBookId t = 1 \<and> t_status t = Approved)
     (transactions exchange_approved)) = 1"
proof -
  have "length (filter (\<lambda>t. t_requestedBookId t = 1 \<and> t_status t = Approved)
     (transactions exchange_approved)) \<ge> 1"
    by (simp add: example_defs)
  with one_approved_per_book [OF reachable_exchange_approved, of 1] reachable_exchange_approved
  show ?thesis by simp
qed

text \<open>
  Claim C8. When a requester has a pending transaction for a book, a further valid
  request of that requester for the same book is answered with an error in every
  database, and nothing is written. In every reachable state the error is "Book is not
  available for request" (the specification's conflict "item not requestable"): the book
  is \<open>pending\<close>, and that check comes before the check for a duplicate.
\<close>

theorem second_request_fails:
  assumes "t \<in> set (transactions s)" "t_status t = Pending"
    and "user = Some (t_requesterId t)" "truthy user"
    and "createTransactionSchema body" "requestedBookId body = t_requestedBookId t"
  shows "(\<exists>e. createTransaction s user body = Inl e) \<and>
         after s (createTransaction s user body) = s \<and>
         (reachable s \<longrightarrow> createTransaction s user body = Inl BookNotAvailable)"
proof -
  have "existingTransaction s (the user) (requestedBookId body)"
    using assms(1-3,6) by (auto simp: existingTransaction_def filter_empty_conv)
  then have early: "\<exists>e. createTransaction s user body = Inl e \<and> burnt e s = s"
    by (auto simp: createTransaction_def missing_def split: option.splits
        dest: exchange_checks_writes_nothing)
  then have fails: "\<exists>e. createTransaction s user body = Inl e"
    by blast
  from early have same: "after s (createTransaction s user body) = s"
    by (auto simp: after_def)
  have "createTransaction s user body = Inl BookNotAvailable" if "reachable s"
  proof -
    note d = consistentD [OF reachable_consistent [OF that]]
    from d(4) [OF assms(1,2), of "t_requestedBookId t"]
    have "book_status s (requestedBookId body) = Some ''pending''"
      by (simp add: references_def assms(6))
    then obtain b where "select_book (books s) (requestedBookId body) = Some b"
      "b_status b = ''pending''"
      by (auto simp: book_status_def)
    with assms(4,5) show ?thesis
      by (simp add: createTransaction_def)
  qed
  with fails same show ?thesis by blast
qed

theorem second_request_fails_witness:
  "reachable exchange_requested \<and>
   request 1 2 1 (Some 2) Pending \<in> set (transactions exchange_requested) \<and>
   createTransactionSchema (ask 1 1 Exchange (Some 2)) \<and>
   createTransaction exchange_requested (Some 2) (ask 1 1 Exchange (Some 2)) = Inl BookNotAvailable \<and>
   after exchange_requested
     (createTransaction exchange_requested (Some 2) (ask 1 1 Exchange (Some 2))) = exchange_requested"
proof -
  let ?t = "request 1 2 1 (Some 2) Pending"
  have h: "?t \<in> set (transactions exchange_requested)" "t_status ?t = Pending"
    "Some 2 = Some (t_requesterId ?t)" "truthy (Some 2)"
    "createTransactionSchema (ask 1 1 Exchange (Some 2))"
    "requestedBookId (ask 1 1 Exchange (Some 2)) = t_requestedBookId ?t"
    by (simp_all add: createTransactionSchema_def safe_positive_def example_defs)
  from second_request_fails [OF h] reachable_exchange_requested h(1,5)
  show ?thesis by blast
qed

text \<open>
  Claim C1 does not hold of the code. User 2 asks for book 1 and offers book 2; the
  owner approves. \<open>updateTransaction\<close> sets book 1 to \<open>approved\<close> and never touches the
  offered book of the approved transaction, so in the reachable state \<open>exchange_approved\<close>
  book 2 is still \<open>pending\<close> and no pending transaction references it. The rejecting
  branch and the loop over the other pending requests do release the offered book.
\<close>

theorem offered_book_stays_pending:
  "reachable exchange_requested \<and>
   updateTransaction exchange_requested (Some 1) (Some 1) (decide Approved) =
     Inr (request 1 2 1 (Some 2) Approved, exchange_approved) \<and>
   reachable exchange_approved \<and>
   book_status exchange_approved 2 = Some ''pending'' \<and>
   \<not> list_ex (\<lambda>t. t_status t = Pending \<and> references t 2) (transactions exchange_approved)"
proof -
  have "book_status exchange_approved 2 = Some ''pending''"
    "\<not> list_ex (\<lambda>t. t_status t = Pending \<and> references t 2) (transactions exchange_approved)"
    by (simp_all add: book_status_def select_book_def references_def example_defs)
  with reachable_exchange_requested exchange_approve reachable_exchange_approved
  show ?thesis by simp
qed

section \<open>Who may resolve a request\<close>

text \<open>
  Claim C3 says that the caller is refused (403) exactly when it differs from the
  \<open>ownerId\<close> stored in the transaction. The handler compares the caller with the owner
  of the joined book row instead. After user 1 has given book 1 to user 3 through
  \<open>updateBook\<close>, the transaction for book 1 still has \<open>ownerId\<close> 1: user 1 is refused and
  user 3 is not.
\<close>

theorem forbidden_counterexample:
  "createTransaction shelf (Some 2) (ask 1 1 Exchange (Some 2)) =
     Inr (request 1 2 1 (Some 2) Pending, exchange_requested) \<and>
   after exchange_requested
     (updateBook any_url exchange_requested (Some 1) (Some 1) give_away) =
     handed_over \<and>
   select_transaction (transactions handed_over) 1 = Some (request 1 2 1 (Some 2) Pending) \<and>
   t_ownerId (request 1 2 1 (Some 2) Pending) = 1 \<and>
   updateTransaction handed_over (Some 1) (Some 1) (decide Approved) = Inl NotBookOwner \<and>
   updateTransaction handed_over (Some 3) (Some 1) (decide Approved) \<noteq> Inl NotBookOwner"
proof -
  have "after exchange_requested
     (updateBook any_url exchange_requested (Some 1) (Some 1) give_away) =
     handed_over"
    by (simp add: updateBook_def bookSchema_partial_def refused_def set_columns_def
        select_book_def after_def safe_positive_def example_defs)
  moreover have "select_transaction (transactions handed_over) 1 = Some (request 1 2 1 (Some 2) Pending)"
    "t_ownerId (request 1 2 1 (Some 2) Pending) = 1"
    "updateTransaction handed_over (Some 1) (Some 1) (decide Approved) = Inl NotBookOwner"
    "updateTransaction handed_over (Some 3) (Some 1) (decide Approved) \<noteq> Inl NotBookOwner"
    by (simp_all add: update_defs example_defs Let_def)
  ultimately show ?thesis using shelf_create by simp
qed

text \<open>
  Claim C3, amended. For an authenticated caller, a valid path parameter and a valid body,
  a call of \<open>updateTransaction\<close> on an existing transaction is refused with 403 exactly
  when the caller differs from the current owner of the requested book; in the states the
  two transaction handlers reach by themselves that owner is the \<open>ownerId\<close> of the
  transaction.
\<close>

theorem forbidden_iff_not_book_owner:
  assumes "transactionWithBook s tid = Some (T, B)"
    and "truthy user" "tid \<noteq> 0" "updateTransactionSchema tid body \<noteq> None"
  shows "((\<exists>e. updateTransaction s user (Some tid) body = Inl e \<and> http_status e = 403) \<longleftrightarrow>
            the user \<noteq> b_ownerId B) \<and>
         (updateTransaction s user (Some tid) body = Inl NotBookOwner \<longleftrightarrow>
            the user \<noteq> b_ownerId B) \<and>
         (reachable s \<longrightarrow> b_ownerId B = t_ownerId T)"
proof -
  have "b_ownerId B = t_ownerId T" if "reachable s"
  proof -
    note d = consistentD [OF reachable_consistent [OF that]]
    from assms(1) have "T \<in> set (transactions s)"
      "select_book (books s) (t_requestedBookId T) = Some B"
      by (auto simp: transactionWithBook_Some dest: select_transaction_Some)
    with d(8) [of T] show ?thesis by simp
  qed
  moreover have "(\<exists>e. updateTransaction s user (Some tid) body = Inl e \<and> http_status e = 403) \<longleftrightarrow>
            the user \<noteq> b_ownerId B"
    "updateTransaction s user (Some tid) body = Inl NotBookOwner \<longleftrightarrow> the user \<noteq> b_ownerId B"
    using assms by (auto simp: updateTransaction_def split: if_splits)
  ultimately show ?thesis by blast
qed

theorem forbidden_iff_not_book_owner_witness:
  "transactionWithBook handed_over 1 =
     Some (request 1 2 1 (Some 2) Pending, bookA\<lparr>b_status := ''pending'', b_ownerId := 3\<rparr>) \<and>
   updateTransactionSchema 1 (decide Rejected) \<noteq> None \<and>
   updateTransaction handed_over (Some 2) (Some 1) (decide Rejected) = Inl NotBookOwner"
proof -
  let ?B = "bookA\<lparr>b_status := ''pending'', b_ownerId := 3\<rparr>"
  have h: "transactionWithBook handed_over 1 = Some (request 1 2 1 (Some 2) Pending, ?B)"
    "truthy (Some 2)" "(1::int) \<noteq> 0" "updateTransactionSchema 1 (decide Rejected) \<noteq> None"
    by (simp_all add: transactionWithBook_def select_transaction_def select_book_def
        updateTransactionSchema_def safe_positive_def example_defs)
  have "the (Some (2::int)) \<noteq> b_ownerId ?B" by (simp add: example_defs)
  with forbidden_iff_not_book_owner [OF h] h show ?thesis by simp
qed

end
